theory Spec2Isabelle
  imports Main
begin

text \<open>
  A model of three parts of the picmo emoji picker: the defaults of the picker options,
  the controller of the popup picker, and the popup that shows the skin variants of an
  emoji. The definitions come first, the theorems about them follow.
\<close>

section \<open>Picker options (packages/picmo/src/options.ts)\<close>

text \<open>
  JavaScript values, as far as the option objects hold them. An object other than an
  array (the renderer instance, the theme, the dictionary, a DOM element) is a
  reference, named by the expression that yields it.
\<close>

datatype jsval =
    JUndefined
  | JBool bool
  | JNum int
  | JStr string
  | JArr "jsval list"
  | JRef string

text \<open>
  An object is the map from its own property names to their values. A property that is
  present with the value \<open>undefined\<close> is \<open>Some JUndefined\<close>; an absent one is \<open>None\<close>.
\<close>

type_synonym jsobj = "string \<Rightarrow> jsval option"

text \<open>
  Object spread \<^verbatim>\<open>{ ...target, ...source }\<close>: every own property of the source is copied
  onto the target, replacing a property of the same name.
\<close>

definition spread :: "jsobj \<Rightarrow> jsobj \<Rightarrow> jsobj" where
  "spread tgt src = tgt ++ src"

definition defaultOptions :: jsobj where
  "defaultOptions =
     [ ''renderer'' \<mapsto> JRef ''new NativeRenderer()'',
       ''theme'' \<mapsto> JRef ''lightTheme'',
       ''animate'' \<mapsto> JBool True,
       ''showSearch'' \<mapsto> JBool True,
       ''showCategoryTabs'' \<mapsto> JBool True,
       ''showVariants'' \<mapsto> JBool True,
       ''showRecents'' \<mapsto> JBool True,
       ''showPreview'' \<mapsto> JBool True,
       ''emojisPerRow'' \<mapsto> JNum 8,
       ''visibleRows'' \<mapsto> JNum 6,
       ''emojiVersion'' \<mapsto> JStr ''auto'',
       ''maxRecents'' \<mapsto> JNum 50,
       ''i18n'' \<mapsto> JRef ''en'',
       ''locale'' \<mapsto> JStr ''en'',
       ''custom'' \<mapsto> JArr [] ]"

text \<open>
  \<^verbatim>\<open>getOptions(options = {})\<close>. The first argument is the value of \<^verbatim>\<open>document.body\<close> when
  the function runs. The second is the caller's argument: \<open>None\<close> when the caller passes
  none (or \<open>undefined\<close>), and the default parameter \<^verbatim>\<open>{}\<close> stands in.
\<close>

definition getOptions :: "jsval \<Rightarrow> jsobj option \<Rightarrow> jsobj" where
  "getOptions body arg =
     (let options = (case arg of None \<Rightarrow> Map.empty | Some given \<Rightarrow> given)
      in spread ((spread Map.empty defaultOptions)(''rootElement'' \<mapsto> body)) options)"

text \<open>
  The defaults as the documentation lists them (docs/api/picmo/types/picker-options.md
  and the claim), to compare \<open>getOptions\<close> with.
\<close>

definition documentedDefaults :: "jsval \<Rightarrow> (string \<times> jsval) list" where
  "documentedDefaults body =
     [ (''animate'', JBool True),
       (''showSearch'', JBool True),
       (''showCategoryTabs'', JBool True),
       (''showVariants'', JBool True),
       (''showRecents'', JBool True),
       (''showPreview'', JBool True),
       (''emojisPerRow'', JNum 8),
       (''visibleRows'', JNum 6),
       (''emojiVersion'', JStr ''auto''),
       (''maxRecents'', JNum 50),
       (''locale'', JStr ''en''),
       (''custom'', JArr []),
       (''rootElement'', body) ]"

section \<open>The popup controller (class PopupPickerController)\<close>

text \<open>
  The controller works on its page through DOM and animation interfaces and through
  classes that are not among the sources. The model keeps the state that the controller
  reads or writes, and a log of what it asks of the others. Line numbers are those of
  the source of the class. Animations end or keep running; none is cancelled.
\<close>

subsection \<open>The page: DOM, animations, events\<close>

text \<open>
  DOM nodes are named by numbers. The tree is the map from a node to its parent;
  a node with no parent is detached, or the root of its tree.
\<close>

type_synonym node = nat

text \<open>
  \<^verbatim>\<open>a.contains(b)\<close> of the DOM: \<open>b\<close> is \<open>a\<close> itself or one of its descendants.
\<close>

inductive contains :: "(node \<Rightarrow> node option) \<Rightarrow> node \<Rightarrow> node \<Rightarrow> bool"
  for par :: "node \<Rightarrow> node option"
where
  contains_self: "contains par a a"
| contains_child: "par b = Some p \<Longrightarrow> contains par a p \<Longrightarrow> contains par a b"

code_pred contains .

text \<open>
  An animation of the Web Animations API on the picker element, with the fields the
  controller sets or reads. \<^verbatim>\<open>getAnimations()\<close> lists them in the order of their creation;
  an animation is named by its place in that list.
\<close>

datatype playState = Idle | Running | Paused | Finished

datatype direction = Normal | Reverse

record animation =
  anim_id :: string
  duration :: nat
  direction :: direction
  playState :: playState

record mouseEvent =
  target :: node

record keyboardEvent =
  key :: string

type_synonym callback = nat

text \<open>
  What the controller does to its collaborators, in the order it does it: the DOM, the
  inner picker (\<^verbatim>\<open>EmojiPicker\<close>), the registry of external listeners
  (\<^verbatim>\<open>ExternalEvents\<close>), the positioning module and the document.
\<close>

datatype effect =
    AppendChild node node
  | RemoveElement node
  | PickerOn string
  | InitializePickerView
  | SetInitialFocus
  | PickerReset
  | PickerDestroy
  | Emit string "callback list"
  | RemoveAll
  | PositionInstalled nat
  | PositionCleanedUp nat
  | AddClickListener
  | RemoveClickListener
  | AddKeydownListener
  | Animate string

subsection \<open>Promises of the asynchronous methods\<close>

text \<open>
  \<open>open\<close>, \<open>close\<close> and \<open>destroy\<close> are \<^verbatim>\<open>async\<close>: a call runs to its first \<^verbatim>\<open>await\<close> and
  returns a promise; the rest of the body runs later, one stretch between two awaits at
  a time, when what it awaits has settled. A task is the promise of one call, with the
  place where the body waits (the continuation) and the animations whose \<^verbatim>\<open>finished\<close>
  promises it awaits.
\<close>

datatype error = TypeError

datatype outcome = Resolved | Rejected error

datatype callee = Open | Close | Destroy

datatype continuation =
    OpenInitiated
  | OpenAnimated
  | CloseInitiated
  | CloseAnimated
  | DestroyClosing nat
  | Settled outcome

record task =
  callee :: callee
  awaited :: "nat list"
  cont :: continuation

subsection \<open>The state\<close>

text \<open>
  The fields of the controller, then the page around it.
  \<^item> \<open>positionCleanup\<close> is \<open>None\<close> while the field is \<open>undefined\<close>, and \<open>Some n\<close> when it
    holds the cleanup function of the \<open>n\<close>-th positioning.
  \<^item> \<open>triggerElement\<close> and \<open>referenceElement\<close> are the options of these names, \<open>None\<close>
    when the option is absent.
  \<^item> \<open>externalEvents\<close> is the registry of \<^verbatim>\<open>new ExternalEvents()\<close>.
  \<^item> \<open>isPickerClick\<close> is the method of the inner picker, whose class is not part of
    the sources: a parameter.
  \<^item> \<open>animateSupported\<close> tells whether the picker element has the method \<^verbatim>\<open>animate\<close>;
    \<open>prefersReducedMotion\<close> is what the function of this name in \<^verbatim>\<open>./util\<close> returns.
  \<^item> \<open>installed\<close> lists the positionings that are installed and not cleaned up.
  \<^item> \<open>clickListener\<close> tells whether \<open>onDocumentClick\<close> is a click listener of the
    document.
\<close>

record world =
  isOpen :: bool
  autoHide :: bool
  rootElement :: node
  popupEl :: node
  positionCleanup :: "nat option"
  triggerElement :: "node option"
  referenceElement :: "node option"
  externalEvents :: "(string \<times> callback) list"
  document_body :: node
  parent :: "node \<Rightarrow> node option"
  animations :: "animation list"
  animateSupported :: bool
  prefersReducedMotion :: bool
  isPickerClick :: "mouseEvent \<Rightarrow> bool"
  installed :: "nat list"
  installations :: nat
  clickListener :: bool
  log :: "effect list"
  tasks :: "task list"

definition SHOW_HIDE_DURATION :: nat where
  "SHOW_HIDE_DURATION = 150"

definition logged :: "effect \<Rightarrow> world \<Rightarrow> world" where
  "logged e w = w\<lparr>log := log w @ [e]\<rparr>"

subsection \<open>Collaborators that are not among the sources\<close>

text \<open>
  Modelled from the spec: \<^verbatim>\<open>setPosition\<close> of \<^verbatim>\<open>./positioning\<close>, which is not among the
  sources. The spec speaks of positioning and of its cleanup: a call installs a
  positioning of the popup element and returns the function that removes it again.
\<close>

definition install :: "world \<Rightarrow> nat \<times> world" where
  "install w =
     (let n = installations w
      in (n, logged (PositionInstalled n)
               (w\<lparr>installed := installed w @ [n], installations := Suc n\<rparr>)))"

definition cleanup :: "nat \<Rightarrow> world \<Rightarrow> world" where
  "cleanup n w = logged (PositionCleanedUp n) (w\<lparr>installed := removeAll n (installed w)\<rparr>)"

text \<open>
  Modelled from the spec: the class \<^verbatim>\<open>ExternalEvents\<close>, which is not among the sources.
  \<open>on\<close> registers a callback for an event, \<open>emit\<close> calls the callbacks registered for
  the event, \<open>removeAll\<close> empties the registry.
\<close>

definition listeners :: "string \<Rightarrow> world \<Rightarrow> callback list" where
  "listeners event w = map snd (filter (\<lambda>(e, c). e = event) (externalEvents w))"

definition emit :: "string \<Rightarrow> world \<Rightarrow> world" where
  "emit event w = logged (Emit event (listeners event w)) w"

definition removeAll_events :: "world \<Rightarrow> world" where
  "removeAll_events w = logged RemoveAll (w\<lparr>externalEvents := []\<rparr>)"

text \<open>The DOM methods \<^verbatim>\<open>appendChild\<close> and \<^verbatim>\<open>remove\<close>.\<close>

definition appendChild :: "node \<Rightarrow> node \<Rightarrow> world \<Rightarrow> world" where
  "appendChild p c w = logged (AppendChild p c) (w\<lparr>parent := (parent w)(c \<mapsto> p)\<rparr>)"

definition remove_element :: "node \<Rightarrow> world \<Rightarrow> world" where
  "remove_element c w = logged (RemoveElement c) (w\<lparr>parent := (parent w)(c := None)\<rparr>)"

subsection \<open>The methods\<close>

text \<open>
  The options of the constructor that the controller reads.
\<close>

record options =
  opt_rootElement :: "node option"
  opt_autoHide :: "bool option"
  opt_triggerElement :: "node option"
  opt_referenceElement :: "node option"

text \<open>
  The constructor. The argument world is the page before the call; \<open>el\<close> is the element
  that \<^verbatim>\<open>document.createElement('div')\<close> returns, new and detached. The positionings and
  the promises are those of this controller, so there are none yet. The keydown
  listener of the popup element is never removed.
\<close>

definition PopupPickerController :: "options \<Rightarrow> node \<Rightarrow> world \<Rightarrow> world" where
  "PopupPickerController opts el page =
     (let w1 = page\<lparr>
            popupEl := el,
            parent := (parent page)(el := None),
            rootElement := (case opt_rootElement opts of None \<Rightarrow> document_body page | Some r \<Rightarrow> r),
            autoHide := (case opt_autoHide opts of None \<Rightarrow> True | Some a \<Rightarrow> a),
            triggerElement := opt_triggerElement opts,
            referenceElement := opt_referenceElement opts,
            isOpen := False,
            positionCleanup := None,
            externalEvents := [],
            installed := [],
            tasks := []\<rparr>;
          w2 = (if autoHide w1 then logged (PickerOn ''emoji:select'') w1 else w1);
          w3 = logged AddClickListener (w2\<lparr>clickListener := True\<rparr>)
      in logged AddKeydownListener w3)"

definition on :: "string \<Rightarrow> callback \<Rightarrow> world \<Rightarrow> world" where
  "on event cb w =
     logged (PickerOn event) (w\<lparr>externalEvents := externalEvents w @ [(event, cb)]\<rparr>)"

definition getRunningAnimations :: "world \<Rightarrow> nat list" where
  "getRunningAnimations w =
     filter (\<lambda>i. playState (animations w ! i) = Running) [0..<length (animations w)]"

definition setPosition :: "world \<Rightarrow> world" where
  "setPosition w =
     (let w1 = (case positionCleanup w of None \<Rightarrow> w | Some n \<Rightarrow> cleanup n w);
          (n, w2) = install w1
      in w2\<lparr>positionCleanup := Some n\<rparr>)"

text \<open>
  \<open>awaitPendingAnimations\<close> returns the promise of \<^verbatim>\<open>Promise.all\<close> over the \<^verbatim>\<open>finished\<close>
  promises of the running animations: here, the animations it waits for.
\<close>

definition awaitPendingAnimations :: "world \<Rightarrow> nat list" where
  "awaitPendingAnimations w = getRunningAnimations w"

text \<open>
  \<open>animateOpenStateChange\<close> starts the show or hide animation, when the element has the
  method \<^verbatim>\<open>animate\<close>, and returns its \<^verbatim>\<open>finished\<close> promise: the animations the caller
  then awaits, none when \<^verbatim>\<open>animate\<close> is missing. A new animation plays at once; one of
  duration 0 is at its end at once.
\<close>

definition animateOpenStateChange :: "bool \<Rightarrow> world \<Rightarrow> nat list \<times> world" where
  "animateOpenStateChange openState w =
     (if animateSupported w then
        (let d = (if prefersReducedMotion w then 0 else SHOW_HIDE_DURATION);
             a = \<lparr> anim_id = (if openState then ''show-picker'' else ''hide-picker''),
                   duration = d,
                   direction = (if openState then Normal else Reverse),
                   playState = (if d = 0 then Finished else Running) \<rparr>
         in ([length (animations w)],
             logged (Animate (anim_id a)) (w\<lparr>animations := animations w @ [a]\<rparr>)))
      else ([], w))"

text \<open>
  \<open>initiateOpenStateChange\<close>, up to its await: the new open state is marked at once; the
  result names the animations that it waits for.
\<close>

definition initiateOpenStateChange :: "bool \<Rightarrow> world \<Rightarrow> nat list \<times> world" where
  "initiateOpenStateChange openState w =
     (let w1 = w\<lparr>isOpen := openState\<rparr>
      in (awaitPendingAnimations w1, w1))"

definition spawn :: "task \<Rightarrow> world \<Rightarrow> world" where
  "spawn t w = w\<lparr>tasks := tasks w @ [t]\<rparr>"

text \<open>\<open>open\<close>, up to its first await (line 99).\<close>

definition "open" :: "world \<Rightarrow> world" where
  "open w =
     (if isOpen w then
        spawn \<lparr>callee = Open, awaited = [], cont = Settled Resolved\<rparr> w
      else
        (let (pending, w1) = initiateOpenStateChange True w
         in spawn \<lparr>callee = Open, awaited = pending, cont = OpenInitiated\<rparr> w1))"

text \<open>\<open>open\<close>, from its first await to its second (lines 100 to 104).\<close>

definition open_initiated :: "world \<Rightarrow> nat list \<times> world" where
  "open_initiated w =
     (let w1 = appendChild (rootElement w) (popupEl w) w;
          w2 = setPosition w1;
          w3 = logged InitializePickerView w2
      in animateOpenStateChange True w3)"

text \<open>\<open>open\<close>, after its second await (lines 105 to 107).\<close>

definition open_animated :: "world \<Rightarrow> world" where
  "open_animated w =
     (let w1 = logged InitializePickerView w;
          w2 = logged SetInitialFocus w1
      in emit ''picker:open'' w2)"

text \<open>\<open>close\<close>, up to its first await (line 120).\<close>

definition close :: "world \<Rightarrow> world" where
  "close w =
     (if \<not> isOpen w then
        spawn \<lparr>callee = Close, awaited = [], cont = Settled Resolved\<rparr> w
      else
        (let (pending, w1) = initiateOpenStateChange False w
         in spawn \<lparr>callee = Close, awaited = pending, cont = CloseInitiated\<rparr> w1))"

text \<open>\<open>close\<close>, from its first await to its second (line 121).\<close>

definition close_initiated :: "world \<Rightarrow> nat list \<times> world" where
  "close_initiated w = animateOpenStateChange False w"

text \<open>
  \<open>close\<close>, after its second await (lines 123 to 125). The call of \<open>positionCleanup\<close>
  is not guarded: while the field is \<open>undefined\<close> it throws a TypeError, after the
  element is removed and the picker reset, and the promise of \<open>close\<close> is rejected.
\<close>

definition close_animated :: "world \<Rightarrow> outcome \<times> world" where
  "close_animated w =
     (let w1 = remove_element (popupEl w) w;
          w2 = logged PickerReset w1
      in (case positionCleanup w2 of
            None \<Rightarrow> (Rejected TypeError, w2)
          | Some n \<Rightarrow> (Resolved, cleanup n w2)))"

text \<open>\<open>destroy\<close>, after the picker is closed (lines 73 to 76).\<close>

definition destroy_closed :: "world \<Rightarrow> world" where
  "destroy_closed w =
     (let w1 = logged RemoveClickListener (w\<lparr>clickListener := False\<rparr>);
          w2 = logged PickerDestroy w1
      in removeAll_events w2)"

text \<open>
  \<open>destroy\<close>, up to its await (line 70) or, when the picker is not open, to its end.
  The promise of the inner call of \<open>close\<close> is the task before its own.
\<close>

definition destroy :: "world \<Rightarrow> world" where
  "destroy w =
     (if isOpen w then
        (let w1 = close w
         in spawn \<lparr>callee = Destroy, awaited = [],
                   cont = DestroyClosing (length (tasks w))\<rparr> w1)
      else
        spawn \<lparr>callee = Destroy, awaited = [], cont = Settled Resolved\<rparr> (destroy_closed w))"

definition toggle :: "world \<Rightarrow> world" where
  "toggle w = (if isOpen w then close w else open w)"

definition handleKeydown :: "keyboardEvent \<Rightarrow> world \<Rightarrow> world" where
  "handleKeydown event w = (if key event = ''Escape'' then close w else w)"

text \<open>
  \<^verbatim>\<open>this.options.triggerElement?.contains(clickedNode)\<close> is \<open>undefined\<close>, which counts as
  false, when there is no trigger element.
\<close>

definition onDocumentClick :: "mouseEvent \<Rightarrow> world \<Rightarrow> world" where
  "onDocumentClick event w =
     (let clickedNode = target event;
          isClickOnTrigger =
            (case triggerElement w of
               None \<Rightarrow> False
             | Some trigger \<Rightarrow> contains (parent w) trigger clickedNode)
      in if isOpen w \<and> \<not> isPickerClick w event \<and> \<not> isClickOnTrigger then close w else w)"

subsection \<open>The event loop\<close>

text \<open>
  An animation reaches its end: its \<^verbatim>\<open>finished\<close> promise resolves.
\<close>

definition end_animation :: "nat \<Rightarrow> animation list \<Rightarrow> animation list" where
  "end_animation i as =
     (if i < length as \<and> playState (as ! i) = Running then
        as[i := (as ! i)\<lparr>playState := Finished\<rparr>]
      else as)"

definition finish :: "nat \<Rightarrow> world \<Rightarrow> world" where
  "finish i w = w\<lparr>animations := end_animation i (animations w)\<rparr>"

text \<open>
  A task can go on when every animation it awaits has finished; the task of \<open>destroy\<close>,
  when the promise of its call of \<open>close\<close> has settled. A settled task has nothing left
  to run.
\<close>

definition settled :: "task \<Rightarrow> bool" where
  "settled t = (case cont t of Settled r \<Rightarrow> True | _ \<Rightarrow> False)"

definition ready :: "world \<Rightarrow> task \<Rightarrow> bool" where
  "ready w t =
     (case cont t of
        Settled r \<Rightarrow> False
      | DestroyClosing c \<Rightarrow> c < length (tasks w) \<and> settled (tasks w ! c)
      | _ \<Rightarrow> list_all (\<lambda>a. a < length (animations w) \<and>
                               playState (animations w ! a) = Finished) (awaited t))"

definition continue :: "nat \<Rightarrow> nat list \<Rightarrow> continuation \<Rightarrow> world \<Rightarrow> world" where
  "continue i pending k w =
     w\<lparr>tasks := (tasks w)[i := (tasks w ! i)\<lparr>awaited := pending, cont := k\<rparr>]\<rparr>"

text \<open>
  The body of task \<open>i\<close> runs from the await where it waits to the next one, or to its
  end. Nothing happens when the task is not ready.
\<close>

definition resume :: "nat \<Rightarrow> world \<Rightarrow> world" where
  "resume i w =
     (if i < length (tasks w) \<and> ready w (tasks w ! i) then
        (case cont (tasks w ! i) of
           OpenInitiated \<Rightarrow>
             (let (pending, w1) = open_initiated w in continue i pending OpenAnimated w1)
         | OpenAnimated \<Rightarrow> continue i [] (Settled Resolved) (open_animated w)
         | CloseInitiated \<Rightarrow>
             (let (pending, w1) = close_initiated w in continue i pending CloseAnimated w1)
         | CloseAnimated \<Rightarrow>
             (let (r, w1) = close_animated w in continue i [] (Settled r) w1)
         | DestroyClosing c \<Rightarrow>
             (case cont (tasks w ! c) of
                Settled Resolved \<Rightarrow> continue i [] (Settled Resolved) (destroy_closed w)
              | Settled (Rejected e) \<Rightarrow> continue i [] (Settled (Rejected e)) w
              | _ \<Rightarrow> w)
         | Settled r \<Rightarrow> w)
      else w)"

text \<open>
  What can happen to a controller: a call of one of its public methods, an event that
  one of its listeners hears, the end of an animation, and the next stretch of a
  pending call. The click listener is on the document from the constructor until
  \<open>destroy\<close>; the listener of \<^verbatim>\<open>emoji:select\<close> exists when \<open>autoHide\<close> is set.
\<close>

datatype action =
    CallOpen
  | CallClose
  | CallToggle
  | CallDestroy
  | CallOn string callback
  | Click mouseEvent
  | Keydown keyboardEvent
  | EmojiSelect
  | AnimationFinished nat
  | Resume nat

fun exec :: "action \<Rightarrow> world \<Rightarrow> world" where
  "exec CallOpen w = open w"
| "exec CallClose w = close w"
| "exec CallToggle w = toggle w"
| "exec CallDestroy w = destroy w"
| "exec (CallOn event cb) w = on event cb w"
| "exec (Click event) w = (if clickListener w then onDocumentClick event w else w)"
| "exec (Keydown event) w = handleKeydown event w"
| "exec EmojiSelect w = (if autoHide w then close w else w)"
| "exec (AnimationFinished i) w = finish i w"
| "exec (Resume i) w = resume i w"

definition run :: "action list \<Rightarrow> world \<Rightarrow> world" where
  "run acts w = fold exec acts w"

text \<open>
  A call followed to its end with nothing else in between: each time the call awaits
  animations, they finish and the call goes on.
\<close>

definition await_step :: "nat \<Rightarrow> world \<Rightarrow> world" where
  "await_step i w =
     (if i < length (tasks w) then resume i (fold finish (awaited (tasks w ! i)) w) else w)"

definition run_open :: "world \<Rightarrow> world" where
  "run_open w = (let i = length (tasks w) in await_step i (await_step i (open w)))"

definition run_close :: "world \<Rightarrow> world" where
  "run_close w = (let i = length (tasks w) in await_step i (await_step i (close w)))"

definition run_destroy :: "world \<Rightarrow> world" where
  "run_destroy w =
     (let i = length (tasks w)
      in resume (Suc i) (await_step i (await_step i (destroy w))))"

text \<open>
  The asynchronous methods called between two states, in the order of the calls: each
  call adds its promise to the tasks.
\<close>

definition calls_since :: "world \<Rightarrow> world \<Rightarrow> callee list" where
  "calls_since w w' = map callee (drop (length (tasks w)) (tasks w'))"

text \<open>
  Indices that name animations which are running or have finished: what the
  \<^verbatim>\<open>finished\<close> promises awaited by a call stand for.
\<close>

definition awaitable :: "world \<Rightarrow> nat list \<Rightarrow> bool" where
  "awaitable w xs \<longleftrightarrow>
     list_all (\<lambda>a. a < length (animations w) \<and>
        (playState (animations w ! a) = Running \<or> playState (animations w ! a) = Finished)) xs"

subsection \<open>An example page\<close>

text \<open>
  The body is node 0. A button (node 1, the trigger) holds a label (node 2); a paragraph
  (node 3) stands beside it. The new element of the popup is node 10. The inner picker
  renders into it: its element is node 11, and a click on that is a click on the picker.
\<close>

definition example_page :: world where
  "example_page =
     \<lparr> isOpen = False, autoHide = False, rootElement = 0, popupEl = 0,
       positionCleanup = None, triggerElement = None, referenceElement = None,
       externalEvents = [], document_body = 0,
       parent = [1 \<mapsto> 0, 2 \<mapsto> 1, 3 \<mapsto> 0, 11 \<mapsto> 10],
       animations = [], animateSupported = True, prefersReducedMotion = False,
       isPickerClick = (\<lambda>e. target e = 11), installed = [], installations = 0,
       clickListener = False, log = [], tasks = [] \<rparr>"

definition example_options :: options where
  "example_options =
     \<lparr> opt_rootElement = None, opt_autoHide = None,
       opt_triggerElement = Some 1, opt_referenceElement = Some 1 \<rparr>"

definition example_controller :: world where
  "example_controller = PopupPickerController example_options 10 example_page"

text \<open>The same controller while another animation of the picker element is running.\<close>

definition example_busy :: world where
  "example_busy =
     example_controller\<lparr>animations :=
       [\<lparr>anim_id = ''fade'', duration = 300, direction = Normal, playState = Running\<rparr>]\<rparr>"

subsection \<open>Properties of states\<close>

text \<open>
  The positionings that are installed are at most the one whose cleanup function the
  controller holds.
\<close>

definition positioned :: "world \<Rightarrow> bool" where
  "positioned w \<longleftrightarrow> installed w = [] \<or> map Some (installed w) = [positionCleanup w]"

text \<open>
  Two animations of the picker element run at the same time, the later of them being
  the show or the hide animation of the controller.
\<close>

fun overlapping :: "animation list \<Rightarrow> bool" where
  "overlapping [] = False"
| "overlapping (a # as) =
     ((playState a = Running \<and>
       list_ex (\<lambda>b. playState b = Running \<and>
                     (anim_id b = ''show-picker'' \<or> anim_id b = ''hide-picker'')) as)
      \<or> overlapping as)"

text \<open>
  Task \<open>i\<close> was created waiting at \<open>k\<close> for the animations \<open>R\<close>: it still waits there
  for them, or it has gone on and all of them have finished.
\<close>

definition waited :: "nat \<Rightarrow> nat list \<Rightarrow> continuation \<Rightarrow> world \<Rightarrow> bool" where
  "waited i R k w \<longleftrightarrow>
     i < length (tasks w) \<and>
     list_all (\<lambda>a. a < length (animations w)) R \<and>
     (if cont (tasks w ! i) = k then awaited (tasks w ! i) = R
      else list_all (\<lambda>a. playState (animations w ! a) = Finished) R)"










section \<open>The variant popup (class VariantPopup)\<close>

text \<open>
  The class is not among the sources; its test is
  (packages/picmo/src/views/__tests__/VariantPopup.test.ts). An emoji record has the
  emoji, a label and its skin variants, each with a label and an emoji of its own. An
  emoji is written here by its code points.
\<close>

record skin =
  skin_label :: string
  skin_emoji :: string

record emojiRecord =
  emoji :: string
  label :: string
  skins :: "skin list"

text \<open>
  Modelled from the spec: the rendering of \<^verbatim>\<open>VariantPopup\<close>, which is missing from the
  sources. The popup shows one button for the emoji and one for each of its variants;
  the result lists the texts of the buttons in the order of the document.
\<close>

definition renderVariantPopup :: "emojiRecord \<Rightarrow> string list" where
  "renderVariantPopup e = emoji e # map skin_emoji (skins e)"

text \<open>
  Modelled from the spec: the keydown handler of \<^verbatim>\<open>VariantPopup\<close>, which is missing from
  the sources. The arrow keys cycle through the list of buttons: with \<open>n\<close> buttons and
  button \<open>i\<close> focused, the result is the index of the button that has the focus after
  the key; another key leaves the focus where it is.
\<close>

definition arrowKey :: "string \<Rightarrow> int \<Rightarrow> int \<Rightarrow> int" where
  "arrowKey pressed n i =
     (if pressed = ''ArrowRight'' then (i + 1) mod n
      else if pressed = ''ArrowLeft'' then (i - 1 + n) mod n
      else i)"

text \<open>The keys of a test, pressed one after the other.\<close>

definition keyboard :: "string list \<Rightarrow> int \<Rightarrow> int \<Rightarrow> int" where
  "keyboard pressed n i = fold (\<lambda>k. arrowKey k n) pressed i"

text \<open>The emoji record of the test.\<close>

definition thumbs :: emojiRecord where
  "thumbs =
     \<lparr> emoji = ''U+1F44D'', label = ''thumbs'',
       skins = [ \<lparr>skin_label = ''thumbs up1'', skin_emoji = ''U+1F44D U+1F3FC''\<rparr>,
                 \<lparr>skin_label = ''thumbs up2'', skin_emoji = ''U+1F44D U+1F3FF''\<rparr> ] \<rparr>"

section \<open>Theorems\<close>

subsection \<open>getOptions\<close>

lemma getOptions_supplied:
  "given k = Some v \<Longrightarrow> getOptions body (Some given) k = Some v"
  by (simp add: getOptions_def spread_def map_add_def)

lemma getOptions_omitted:
  "given k = None \<Longrightarrow>
     getOptions body (Some given) k = (defaultOptions(''rootElement'' \<mapsto> body)) k"
  by (simp add: getOptions_def spread_def map_add_def)

lemma documentedDefaults_are_defaults:
  "(k, v) \<in> set (documentedDefaults body) \<Longrightarrow>
     (defaultOptions(''rootElement'' \<mapsto> body)) k = Some v"
  unfolding documentedDefaults_def defaultOptions_def
  by (simp only: set_simps insert_iff empty_iff Pair_inject) (elim disjE conjE FalseE; simp)

text \<open>
  C9. For every partial options object, every property the caller supplies keeps the
  caller's value in the result of \<open>getOptions\<close> (a supplied \<open>rootElement\<close> replaces
  \<^verbatim>\<open>document.body\<close>), and every omitted property of the documented list takes its
  documented default: animate, showSearch, showCategoryTabs, showVariants, showRecents
  and showPreview true, emojisPerRow 8, visibleRows 6, emojiVersion 'auto', maxRecents
  50, locale 'en', custom the empty array, rootElement \<^verbatim>\<open>document.body\<close>. A call with no
  argument returns these defaults.
\<close>

theorem getOptions_defaults_and_overrides:
  "(\<forall>k v. given k = Some v \<longrightarrow> getOptions body (Some given) k = Some v) \<and>
   (\<forall>(k, v) \<in> set (documentedDefaults body).
      given k = None \<longrightarrow> getOptions body (Some given) k = Some v) \<and>
   (\<forall>(k, v) \<in> set (documentedDefaults body). getOptions body None k = Some v)"
proof (intro conjI allI impI ballI)
  fix k v
  assume "given k = Some v"
  then show "getOptions body (Some given) k = Some v"
    by (rule getOptions_supplied)
next
  fix p
  assume p: "p \<in> set (documentedDefaults body)"
  show "case p of (k, v) \<Rightarrow> given k = None \<longrightarrow> getOptions body (Some given) k = Some v"
  proof (cases p)
    case (Pair k v)
    from p Pair have "(k, v) \<in> set (documentedDefaults body)"
      by simp
    then have "(defaultOptions(''rootElement'' \<mapsto> body)) k = Some v"
      by (rule documentedDefaults_are_defaults)
    with Pair show ?thesis
      by (simp add: getOptions_omitted)
  qed
next
  fix p
  assume p: "p \<in> set (documentedDefaults body)"
  show "case p of (k, v) \<Rightarrow> getOptions body None k = Some v"
  proof (cases p)
    case (Pair k v)
    from p Pair have "(k, v) \<in> set (documentedDefaults body)"
      by simp
    then have "(defaultOptions(''rootElement'' \<mapsto> body)) k = Some v"
      by (rule documentedDefaults_are_defaults)
    with Pair show ?thesis
      by (simp add: getOptions_def spread_def)
  qed
qed

theorem getOptions_defaults_and_overrides_witness:
  "getOptions (JRef ''document.body'')
      (Some [''emojisPerRow'' \<mapsto> JNum 10, ''rootElement'' \<mapsto> JRef ''#picker'',
             ''animate'' \<mapsto> JUndefined])
      ''emojisPerRow'' = Some (JNum 10) \<and>
   getOptions (JRef ''document.body'')
      (Some [''emojisPerRow'' \<mapsto> JNum 10, ''rootElement'' \<mapsto> JRef ''#picker'',
             ''animate'' \<mapsto> JUndefined])
      ''rootElement'' = Some (JRef ''#picker'') \<and>
   getOptions (JRef ''document.body'')
      (Some [''emojisPerRow'' \<mapsto> JNum 10, ''rootElement'' \<mapsto> JRef ''#picker'',
             ''animate'' \<mapsto> JUndefined])
      ''animate'' = Some JUndefined \<and>
   getOptions (JRef ''document.body'')
      (Some [''emojisPerRow'' \<mapsto> JNum 10, ''rootElement'' \<mapsto> JRef ''#picker'',
             ''animate'' \<mapsto> JUndefined])
      ''maxRecents'' = Some (JNum 50) \<and>
   getOptions (JRef ''document.body'') None ''rootElement'' = Some (JRef ''document.body'')"
proof -
  let ?given = "[''emojisPerRow'' \<mapsto> JNum 10, ''rootElement'' \<mapsto> JRef ''#picker'',
                 ''animate'' \<mapsto> JUndefined]"
  let ?body = "JRef ''document.body''"
  note inst = getOptions_defaults_and_overrides [of ?given ?body]
  have supplied: "\<And>k v. ?given k = Some v \<Longrightarrow> getOptions ?body (Some ?given) k = Some v"
    using inst by blast
  have omitted: "\<And>k v. (k, v) \<in> set (documentedDefaults ?body) \<Longrightarrow> ?given k = None \<Longrightarrow>
      getOptions ?body (Some ?given) k = Some v"
    using inst by blast
  have bare: "\<And>k v. (k, v) \<in> set (documentedDefaults ?body) \<Longrightarrow>
      getOptions ?body None k = Some v"
    using inst by blast
  have 1: "getOptions ?body (Some ?given) ''emojisPerRow'' = Some (JNum 10)"
    by (rule supplied) simp
  have 2: "getOptions ?body (Some ?given) ''rootElement'' = Some (JRef ''#picker'')"
    by (rule supplied) simp
  have 3: "getOptions ?body (Some ?given) ''animate'' = Some JUndefined"
    by (rule supplied) simp
  have 4: "getOptions ?body (Some ?given) ''maxRecents'' = Some (JNum 50)"
    by (rule omitted) (simp_all add: documentedDefaults_def)
  have 5: "getOptions ?body None ''rootElement'' = Some ?body"
    by (rule bare) (simp add: documentedDefaults_def)
  from 1 2 3 4 5 show ?thesis by blast
qed

subsection \<open>The example page, evaluated\<close>

lemma example_controller_eq:
  "example_controller =
     \<lparr> isOpen = False, autoHide = True, rootElement = 0, popupEl = 10,
       positionCleanup = None, triggerElement = Some 1, referenceElement = Some 1,
       externalEvents = [], document_body = 0,
       parent = [1 \<mapsto> 0, 2 \<mapsto> 1, 3 \<mapsto> 0, 11 \<mapsto> 10],
       animations = [], animateSupported = True, prefersReducedMotion = False,
       isPickerClick = (\<lambda>e. target e = 11), installed = [], installations = 0,
       clickListener = True,
       log = [PickerOn ''emoji:select'', AddClickListener, AddKeydownListener],
       tasks = [] \<rparr>"
  by (simp add: example_controller_def PopupPickerController_def example_options_def
      example_page_def logged_def Let_def)

lemmas model_defs =
  run_open_def run_close_def run_destroy_def await_step_def resume_def ready_def settled_def
  continue_def finish_def end_animation_def open_def close_def destroy_def toggle_def
  open_initiated_def open_animated_def close_initiated_def close_animated_def
  destroy_closed_def initiateOpenStateChange_def awaitPendingAnimations_def
  getRunningAnimations_def animateOpenStateChange_def setPosition_def install_def
  cleanup_def emit_def listeners_def removeAll_events_def appendChild_def
  remove_element_def logged_def spawn_def SHOW_HIDE_DURATION_def Let_def

lemma example_open_eq:
  "run_open example_controller =
     \<lparr> isOpen = True, autoHide = True, rootElement = 0, popupEl = 10,
       positionCleanup = Some 0, triggerElement = Some 1, referenceElement = Some 1,
       externalEvents = [], document_body = 0,
       parent = [1 \<mapsto> 0, 2 \<mapsto> 1, 3 \<mapsto> 0, 11 \<mapsto> 10, 10 \<mapsto> 0],
       animations = [\<lparr>anim_id = ''show-picker'', duration = 150, direction = Normal,
                       playState = Finished\<rparr>],
       animateSupported = True, prefersReducedMotion = False,
       isPickerClick = (\<lambda>e. target e = 11), installed = [0], installations = 1,
       clickListener = True,
       log = [PickerOn ''emoji:select'', AddClickListener, AddKeydownListener,
              AppendChild 0 10, PositionInstalled 0, InitializePickerView,
              Animate ''show-picker'', InitializePickerView, SetInitialFocus,
              Emit ''picker:open'' []],
       tasks = [\<lparr>callee = Open, awaited = [], cont = Settled Resolved\<rparr>] \<rparr>"
  unfolding example_controller_eq
  by (simp add: model_defs)

lemma contains_unfold:
  "contains par a b \<longleftrightarrow>
     a = b \<or> (case par b of None \<Rightarrow> False | Some p \<Rightarrow> contains par a p)"
  by (auto elim: contains.cases intro: contains.intros split: option.splits)


subsection \<open>Clicks and keys\<close>

lemma contains_rtrancl:
  "contains par a b \<longleftrightarrow> (b, a) \<in> {(c, p). par c = Some p}\<^sup>*"
proof
  assume "contains par a b"
  then show "(b, a) \<in> {(c, p). par c = Some p}\<^sup>*"
  proof (induction rule: contains.induct)
    case (contains_self a)
    show ?case by simp
  next
    case (contains_child b p a)
    have "(b, p) \<in> {(c, p). par c = Some p}"
      using contains_child.hyps by simp
    then show ?case
      using contains_child.IH by (rule converse_rtrancl_into_rtrancl)
  qed
next
  assume "(b, a) \<in> {(c, p). par c = Some p}\<^sup>*"
  then show "contains par a b"
  proof (induction rule: converse_rtrancl_induct)
    case base
    show ?case by (rule contains_self)
  next
    case (step y z)
    then show ?case by (auto intro: contains_child)
  qed
qed

lemma contains_detached: "par b = None \<Longrightarrow> contains par a b \<longleftrightarrow> a = b"
  by (auto elim: contains.cases intro: contains_self)

lemma contains_attached:
  "par b = Some p \<Longrightarrow> contains par a b \<longleftrightarrow> a = b \<or> contains par a p"
  by (auto elim: contains.cases intro: contains.intros)

lemma close_open_world:
  "isOpen w \<Longrightarrow>
     close w = w\<lparr>isOpen := False,
                  tasks := tasks w @ [\<lparr>callee = Close, awaited = getRunningAnimations w,
                                        cont = CloseInitiated\<rparr>]\<rparr>"
  by (simp add: close_def initiateOpenStateChange_def awaitPendingAnimations_def
      getRunningAnimations_def spawn_def)

lemma close_closed_world:
  "\<not> isOpen w \<Longrightarrow>
     close w = w\<lparr>tasks := tasks w @ [\<lparr>callee = Close, awaited = [],
                                        cont = Settled Resolved\<rparr>]\<rparr>"
  by (simp add: close_def spawn_def)

lemma open_closed_world:
  "\<not> isOpen w \<Longrightarrow>
     open w = w\<lparr>isOpen := True,
                 tasks := tasks w @ [\<lparr>callee = Open, awaited = getRunningAnimations w,
                                       cont = OpenInitiated\<rparr>]\<rparr>"
  by (simp add: open_def initiateOpenStateChange_def awaitPendingAnimations_def
      getRunningAnimations_def spawn_def)

lemma open_open_world:
  "isOpen w \<Longrightarrow>
     open w = w\<lparr>tasks := tasks w @ [\<lparr>callee = Open, awaited = [],
                                       cont = Settled Resolved\<rparr>]\<rparr>"
  by (simp add: open_def spawn_def)

lemma calls_since_close: "calls_since w (close w) = [Close]"
  by (cases "isOpen w") (simp_all add: calls_since_def close_open_world close_closed_world)

lemma calls_since_same: "calls_since w w = []"
  by (simp add: calls_since_def)

text \<open>
  C1. While the click listener is on the document, a click event makes the controller
  call \<open>close\<close> if and only if the picker is open, the click is not a click on the
  picker, and the target of the click is neither the trigger element nor one of its
  descendants (it cannot be when there is no trigger element). Otherwise the click
  changes nothing. The descendants are those of the DOM tree: the nodes from which
  parent steps lead to the trigger element.
\<close>

theorem onDocumentClick_closes_iff:
  assumes "clickListener w"
  shows "exec (Click event) w =
           (if isOpen w \<and> \<not> isPickerClick w event \<and>
               \<not> (\<exists>trigger. triggerElement w = Some trigger \<and>
                    (target event, trigger) \<in> {(c, p). parent w c = Some p}\<^sup>*)
            then close w else w) \<and>
         calls_since w (exec (Click event) w) =
           (if isOpen w \<and> \<not> isPickerClick w event \<and>
               \<not> (\<exists>trigger. triggerElement w = Some trigger \<and>
                    (target event, trigger) \<in> {(c, p). parent w c = Some p}\<^sup>*)
            then [Close] else [])"
proof -
  have trig: "(case triggerElement w of None \<Rightarrow> False
               | Some trigger \<Rightarrow> contains (parent w) trigger (target event)) \<longleftrightarrow>
              (\<exists>trigger. triggerElement w = Some trigger \<and>
                 (target event, trigger) \<in> {(c, p). parent w c = Some p}\<^sup>*)"
    by (cases "triggerElement w") (simp_all add: contains_rtrancl)
  have step: "exec (Click event) w =
           (if isOpen w \<and> \<not> isPickerClick w event \<and>
               \<not> (\<exists>trigger. triggerElement w = Some trigger \<and>
                    (target event, trigger) \<in> {(c, p). parent w c = Some p}\<^sup>*)
            then close w else w)"
    using assms by (simp add: onDocumentClick_def Let_def trig)
  show ?thesis
    unfolding step by (simp add: calls_since_close calls_since_same)
qed

theorem onDocumentClick_closes_iff_witness:
  "clickListener (run_open example_controller) \<and>
   calls_since (run_open example_controller)
     (exec (Click \<lparr>target = 3\<rparr>) (run_open example_controller)) = [Close] \<and>
   calls_since (run_open example_controller)
     (exec (Click \<lparr>target = 2\<rparr>) (run_open example_controller)) = [] \<and>
   calls_since (run_open example_controller)
     (exec (Click \<lparr>target = 11\<rparr>) (run_open example_controller)) = [] \<and>
   calls_since example_controller
     (exec (Click \<lparr>target = 3\<rparr>) example_controller) = []"
proof -
  let ?W = "run_open example_controller"
  have listening: "clickListener ?W" "clickListener example_controller"
    by (simp add: example_open_eq) (simp add: example_controller_eq)
  have opened: "isOpen ?W" "\<not> isOpen example_controller"
    by (simp add: example_open_eq) (simp add: example_controller_eq)
  have trigger: "triggerElement ?W = Some 1"
    by (simp add: example_open_eq)
  have picker: "\<not> isPickerClick ?W \<lparr>target = 3\<rparr>" "\<not> isPickerClick ?W \<lparr>target = 2\<rparr>"
    "isPickerClick ?W \<lparr>target = 11\<rparr>"
    by (simp_all add: example_open_eq)
  have outside: "(3, 1) \<notin> {(c, p). parent ?W c = Some p}\<^sup>*"
    unfolding contains_rtrancl [symmetric] example_open_eq
    by (simp add: contains_unfold)
  have inside: "(2, 1) \<in> {(c, p). parent ?W c = Some p}\<^sup>*"
    unfolding contains_rtrancl [symmetric] example_open_eq
    by (simp add: contains_unfold)
  show ?thesis
    using onDocumentClick_closes_iff [OF listening(1), of "\<lparr>target = 3\<rparr>"]
      onDocumentClick_closes_iff [OF listening(1), of "\<lparr>target = 2\<rparr>"]
      onDocumentClick_closes_iff [OF listening(1), of "\<lparr>target = 11\<rparr>"]
      onDocumentClick_closes_iff [OF listening(2), of "\<lparr>target = 3\<rparr>"]
      listening opened trigger picker outside inside
    by (simp add: calls_since_close calls_since_same)
qed

text \<open>
  C5. A keydown event on the popup element makes the controller call \<open>close\<close> if and
  only if the key is Escape; with any other key nothing changes. So after the event
  the picker is marked open exactly when it was open before and the key is not Escape.
\<close>

theorem handleKeydown_escape:
  "exec (Keydown event) w = (if key event = ''Escape'' then close w else w) \<and>
   calls_since w (exec (Keydown event) w) = (if key event = ''Escape'' then [Close] else []) \<and>
   (isOpen (exec (Keydown event) w) = (isOpen w \<and> key event \<noteq> ''Escape''))"
proof -
  have step: "exec (Keydown event) w = (if key event = ''Escape'' then close w else w)"
    by (simp add: handleKeydown_def)
  have calls: "calls_since w (exec (Keydown event) w) =
      (if key event = ''Escape'' then [Close] else [])"
    unfolding step by (simp add: calls_since_close calls_since_same)
  have state: "isOpen (exec (Keydown event) w) = (isOpen w \<and> key event \<noteq> ''Escape'')"
    unfolding step by (cases "isOpen w") (simp_all add: close_open_world close_closed_world)
  from step calls state show ?thesis by blast
qed

theorem handleKeydown_escape_witness:
  "calls_since (run_open example_controller)
     (exec (Keydown \<lparr>key = ''Escape''\<rparr>) (run_open example_controller)) = [Close] \<and>
   \<not> isOpen (exec (Keydown \<lparr>key = ''Escape''\<rparr>) (run_open example_controller)) \<and>
   calls_since (run_open example_controller)
     (exec (Keydown \<lparr>key = ''Enter''\<rparr>) (run_open example_controller)) = [] \<and>
   isOpen (exec (Keydown \<lparr>key = ''Enter''\<rparr>) (run_open example_controller))"
proof -
  let ?W = "run_open example_controller"
  note escape = handleKeydown_escape [of "\<lparr>key = ''Escape''\<rparr>" ?W]
  note enter = handleKeydown_escape [of "\<lparr>key = ''Enter''\<rparr>" ?W]
  have opened: "isOpen ?W"
    by (simp add: example_open_eq)
  have 1: "calls_since ?W (exec (Keydown \<lparr>key = ''Escape''\<rparr>) ?W) = [Close]"
    using escape [THEN conjunct2, THEN conjunct1] by simp
  have 2: "\<not> isOpen (exec (Keydown \<lparr>key = ''Escape''\<rparr>) ?W)"
    using escape [THEN conjunct2, THEN conjunct2] by simp
  have 3: "calls_since ?W (exec (Keydown \<lparr>key = ''Enter''\<rparr>) ?W) = []"
    using enter [THEN conjunct2, THEN conjunct1] by simp
  have 4: "isOpen (exec (Keydown \<lparr>key = ''Enter''\<rparr>) ?W)"
    using enter [THEN conjunct2, THEN conjunct2] opened by simp
  from 1 2 3 4 show ?thesis by blast
qed

subsection \<open>Animations that finish\<close>

lemma fold_finish: "fold finish xs w = w\<lparr>animations := fold end_animation xs (animations w)\<rparr>"
  by (induction xs arbitrary: w) (simp_all add: finish_def)

lemma length_end_animation [simp]: "length (end_animation i as) = length as"
  by (simp add: end_animation_def)

lemma length_fold_end_animation [simp]: "length (fold end_animation xs as) = length as"
  by (induction xs arbitrary: as) simp_all

lemma playState_end_animation:
  "j < length as \<Longrightarrow>
     playState (end_animation i as ! j) =
       (if j = i \<and> playState (as ! j) = Running then Finished else playState (as ! j))"
  by (auto simp add: end_animation_def nth_list_update)

lemma playState_fold_end_animation:
  "j < length as \<Longrightarrow>
     playState (fold end_animation xs as ! j) =
       (if j \<in> set xs \<and> playState (as ! j) = Running then Finished else playState (as ! j))"
  by (induction xs arbitrary: as) (auto simp add: playState_end_animation)

lemma awaitable_iff:
  "awaitable w xs \<longleftrightarrow>
     (\<forall>a \<in> set xs. a < length (animations w) \<and>
        (playState (animations w ! a) = Running \<or> playState (animations w ! a) = Finished))"
  by (simp add: awaitable_def list_all_iff)

lemma all_finished_after_fold:
  "awaitable w xs \<Longrightarrow>
     list_all (\<lambda>a. a < length (fold end_animation xs (animations w)) \<and>
                   playState (fold end_animation xs (animations w) ! a) = Finished) xs"
  by (auto simp add: awaitable_iff list_all_iff playState_fold_end_animation)

lemma awaitable_running: "awaitable w (getRunningAnimations w)"
  by (simp add: awaitable_iff getRunningAnimations_def)

subsection \<open>The stretches of the asynchronous methods\<close>

lemma ready_after_finish:
  assumes "awaitable w (awaited t)"
    and "cont t = OpenInitiated \<or> cont t = OpenAnimated \<or> cont t = CloseInitiated \<or>
         cont t = CloseAnimated"
  shows "ready (fold finish (awaited t) w) t"
  using assms(2) all_finished_after_fold [OF assms(1)]
  by (auto simp add: ready_def fold_finish)

lemma tasks_fold_finish [simp]: "tasks (fold finish xs w) = tasks w"
  by (simp add: fold_finish)

lemma await_OpenInitiated:
  assumes "i < length (tasks w)" "cont (tasks w ! i) = OpenInitiated"
    and "awaitable w (awaited (tasks w ! i))"
  shows "await_step i w =
           continue i (fst (open_initiated (fold finish (awaited (tasks w ! i)) w))) OpenAnimated
             (snd (open_initiated (fold finish (awaited (tasks w ! i)) w)))"
  using assms ready_after_finish [of w "tasks w ! i"]
  by (simp add: await_step_def resume_def split_beta)

lemma await_OpenAnimated:
  assumes "i < length (tasks w)" "cont (tasks w ! i) = OpenAnimated"
    and "awaitable w (awaited (tasks w ! i))"
  shows "await_step i w =
           continue i [] (Settled Resolved)
             (open_animated (fold finish (awaited (tasks w ! i)) w))"
  using assms ready_after_finish [of w "tasks w ! i"]
  by (simp add: await_step_def resume_def)

lemma await_CloseInitiated:
  assumes "i < length (tasks w)" "cont (tasks w ! i) = CloseInitiated"
    and "awaitable w (awaited (tasks w ! i))"
  shows "await_step i w =
           continue i (fst (close_initiated (fold finish (awaited (tasks w ! i)) w))) CloseAnimated
             (snd (close_initiated (fold finish (awaited (tasks w ! i)) w)))"
  using assms ready_after_finish [of w "tasks w ! i"]
  by (simp add: await_step_def resume_def split_beta)

lemma await_CloseAnimated:
  assumes "i < length (tasks w)" "cont (tasks w ! i) = CloseAnimated"
    and "awaitable w (awaited (tasks w ! i))"
  shows "await_step i w =
           continue i [] (Settled (fst (close_animated (fold finish (awaited (tasks w ! i)) w))))
             (snd (close_animated (fold finish (awaited (tasks w ! i)) w)))"
  using assms ready_after_finish [of w "tasks w ! i"]
  by (simp add: await_step_def resume_def split_beta)

lemma await_Settled:
  assumes "i < length (tasks w)" "cont (tasks w ! i) = Settled r"
  shows "await_step i w = fold finish (awaited (tasks w ! i)) w"
  using assms by (simp add: await_step_def resume_def ready_def)

text \<open>What the stretches of the bodies leave alone, and what they change.\<close>

lemma animate_fields:
  "isOpen (snd (animateOpenStateChange b w)) = isOpen w"
  "parent (snd (animateOpenStateChange b w)) = parent w"
  "tasks (snd (animateOpenStateChange b w)) = tasks w"
  "popupEl (snd (animateOpenStateChange b w)) = popupEl w"
  "rootElement (snd (animateOpenStateChange b w)) = rootElement w"
  "positionCleanup (snd (animateOpenStateChange b w)) = positionCleanup w"
  "installed (snd (animateOpenStateChange b w)) = installed w"
  "externalEvents (snd (animateOpenStateChange b w)) = externalEvents w"
  "clickListener (snd (animateOpenStateChange b w)) = clickListener w"
  by (simp_all add: animateOpenStateChange_def Let_def logged_def)

lemma animate_awaitable:
  "awaitable (snd (animateOpenStateChange b w)) (fst (animateOpenStateChange b w))"
  by (simp add: animateOpenStateChange_def Let_def logged_def awaitable_iff nth_append)

lemma animate_log:
  "log (snd (animateOpenStateChange b w)) =
     log w @ (if animateSupported w
              then [Animate (if b then ''show-picker'' else ''hide-picker'')] else [])"
  by (simp add: animateOpenStateChange_def Let_def logged_def)

lemma setPosition_fields:
  "isOpen (setPosition w) = isOpen w"
  "parent (setPosition w) = parent w"
  "tasks (setPosition w) = tasks w"
  "popupEl (setPosition w) = popupEl w"
  "rootElement (setPosition w) = rootElement w"
  "externalEvents (setPosition w) = externalEvents w"
  "clickListener (setPosition w) = clickListener w"
  "animations (setPosition w) = animations w"
  "animateSupported (setPosition w) = animateSupported w"
  "prefersReducedMotion (setPosition w) = prefersReducedMotion w"
  by (simp_all add: setPosition_def install_def cleanup_def logged_def Let_def
      split: option.splits)

lemma setPosition_installs:
  "positionCleanup (setPosition w) = Some (installations w)"
  "installations (setPosition w) = Suc (installations w)"
  "installed (setPosition w) =
     (case positionCleanup w of None \<Rightarrow> installed w | Some n \<Rightarrow> removeAll n (installed w))
     @ [installations w]"
  "log (setPosition w) =
     log w @ (case positionCleanup w of None \<Rightarrow> [] | Some n \<Rightarrow> [PositionCleanedUp n])
     @ [PositionInstalled (installations w)]"
  by (simp_all add: setPosition_def install_def cleanup_def logged_def Let_def
      split: option.splits)

lemma open_initiated_fields:
  "isOpen (snd (open_initiated w)) = isOpen w"
  "parent (snd (open_initiated w)) = (parent w)(popupEl w \<mapsto> rootElement w)"
  "tasks (snd (open_initiated w)) = tasks w"
  "popupEl (snd (open_initiated w)) = popupEl w"
  "rootElement (snd (open_initiated w)) = rootElement w"
  "externalEvents (snd (open_initiated w)) = externalEvents w"
  "clickListener (snd (open_initiated w)) = clickListener w"
  "positionCleanup (snd (open_initiated w)) = Some (installations w)"
  by (simp_all add: open_initiated_def Let_def animate_fields setPosition_fields
      setPosition_installs appendChild_def logged_def)

lemma open_initiated_awaitable:
  "awaitable (snd (open_initiated w)) (fst (open_initiated w))"
  by (simp add: open_initiated_def Let_def animate_awaitable)

lemma open_initiated_log:
  "log (snd (open_initiated w)) =
     log w @ [AppendChild (rootElement w) (popupEl w)]
     @ (case positionCleanup w of None \<Rightarrow> [] | Some n \<Rightarrow> [PositionCleanedUp n])
     @ [PositionInstalled (installations w), InitializePickerView]
     @ (if animateSupported w then [Animate ''show-picker''] else [])"
  by (simp add: open_initiated_def Let_def animate_log setPosition_fields
      setPosition_installs appendChild_def logged_def)

lemma open_animated_eq:
  "open_animated w =
     w\<lparr>log := log w @ [InitializePickerView, SetInitialFocus,
                        Emit ''picker:open'' (listeners ''picker:open'' w)]\<rparr>"
  by (simp add: open_animated_def Let_def emit_def logged_def listeners_def)

lemma close_animated_fields:
  "isOpen (snd (close_animated w)) = isOpen w"
  "parent (snd (close_animated w)) = (parent w)(popupEl w := None)"
  "tasks (snd (close_animated w)) = tasks w"
  "popupEl (snd (close_animated w)) = popupEl w"
  "rootElement (snd (close_animated w)) = rootElement w"
  "externalEvents (snd (close_animated w)) = externalEvents w"
  "clickListener (snd (close_animated w)) = clickListener w"
  "positionCleanup (snd (close_animated w)) = positionCleanup w"
  "animations (snd (close_animated w)) = animations w"
  by (simp_all add: close_animated_def Let_def remove_element_def logged_def cleanup_def
      split: option.splits)

lemma close_animated_outcome:
  "fst (close_animated w) =
     (case positionCleanup w of None \<Rightarrow> Rejected TypeError | Some n \<Rightarrow> Resolved)"
  "installed (snd (close_animated w)) =
     (case positionCleanup w of None \<Rightarrow> installed w | Some n \<Rightarrow> removeAll n (installed w))"
  "log (snd (close_animated w)) =
     log w @ [RemoveElement (popupEl w), PickerReset]
     @ (case positionCleanup w of None \<Rightarrow> [] | Some n \<Rightarrow> [PositionCleanedUp n])"
  by (simp_all add: close_animated_def Let_def remove_element_def logged_def cleanup_def
      split: option.splits)

lemma destroy_closed_eq:
  "destroy_closed w =
     w\<lparr>clickListener := False, externalEvents := [],
       log := log w @ [RemoveClickListener, PickerDestroy, RemoveAll]\<rparr>"
  by (simp add: destroy_closed_def Let_def removeAll_events_def logged_def)

lemma continue_fields:
  "isOpen (continue i p k w) = isOpen w"
  "parent (continue i p k w) = parent w"
  "popupEl (continue i p k w) = popupEl w"
  "rootElement (continue i p k w) = rootElement w"
  "externalEvents (continue i p k w) = externalEvents w"
  "clickListener (continue i p k w) = clickListener w"
  "positionCleanup (continue i p k w) = positionCleanup w"
  "installed (continue i p k w) = installed w"
  "animations (continue i p k w) = animations w"
  "log (continue i p k w) = log w"
  "tasks (continue i p k w) = (tasks w)[i := (tasks w ! i)\<lparr>awaited := p, cont := k\<rparr>]"
  by (simp_all add: continue_def)

lemma fold_finish_fields:
  "isOpen (fold finish xs w) = isOpen w"
  "parent (fold finish xs w) = parent w"
  "popupEl (fold finish xs w) = popupEl w"
  "rootElement (fold finish xs w) = rootElement w"
  "externalEvents (fold finish xs w) = externalEvents w"
  "clickListener (fold finish xs w) = clickListener w"
  "positionCleanup (fold finish xs w) = positionCleanup w"
  "installed (fold finish xs w) = installed w"
  "installations (fold finish xs w) = installations w"
  "log (fold finish xs w) = log w"
  "animateSupported (fold finish xs w) = animateSupported w"
  by (simp_all add: fold_finish)

lemmas stretch_fields =
  open_initiated_fields close_animated_fields animate_fields continue_fields
  fold_finish_fields tasks_fold_finish

text \<open>A pending call of \<open>open\<close>, followed through its two awaits.\<close>

lemma open_task_runs:
  assumes i: "i < length (tasks w)"
    and t: "tasks w ! i = \<lparr>callee = Open, awaited = R, cont = OpenInitiated\<rparr>"
    and R: "awaitable w R"
  shows "tasks (await_step i (await_step i w)) =
           (tasks w)[i := \<lparr>callee = Open, awaited = [], cont = Settled Resolved\<rparr>]"
    and "isOpen (await_step i (await_step i w)) = isOpen w"
    and "parent (await_step i (await_step i w)) = (parent w)(popupEl w \<mapsto> rootElement w)"
    and "log (await_step i (await_step i w)) =
           log w @ [AppendChild (rootElement w) (popupEl w)]
           @ (case positionCleanup w of None \<Rightarrow> [] | Some n \<Rightarrow> [PositionCleanedUp n])
           @ [PositionInstalled (installations w), InitializePickerView]
           @ (if animateSupported w then [Animate ''show-picker''] else [])
           @ [InitializePickerView, SetInitialFocus,
              Emit ''picker:open'' (listeners ''picker:open'' w)]"
    and "positionCleanup (await_step i (await_step i w)) = Some (installations w)"
    and "popupEl (await_step i (await_step i w)) = popupEl w"
    and "rootElement (await_step i (await_step i w)) = rootElement w"
    and "externalEvents (await_step i (await_step i w)) = externalEvents w"
    and "clickListener (await_step i (await_step i w)) = clickListener w"
proof -
  define A1 where "A1 = fold finish R w"
  define W1 where "W1 = await_step i w"
  define p where "p = fst (open_initiated A1)"
  define A2 where "A2 = fold finish p W1"
  define W2 where "W2 = await_step i W1"
  from i t R have W1: "W1 = continue i p OpenAnimated (snd (open_initiated A1))"
    by (simp add: W1_def p_def A1_def await_OpenInitiated)
  have t1: "i < length (tasks W1)"
    "tasks W1 ! i = \<lparr>callee = Open, awaited = p, cont = OpenAnimated\<rparr>"
    using i t by (simp_all add: W1 A1_def stretch_fields)
  have "awaitable W1 p"
    using open_initiated_awaitable [of A1]
    by (simp add: W1 p_def awaitable_iff stretch_fields)
  with t1 have W2: "W2 = continue i [] (Settled Resolved) (open_animated A2)"
    by (simp add: W2_def A2_def await_OpenAnimated)
  note unfold = W2_def [symmetric] W1_def [symmetric]
  note facts = open_animated_eq A2_def W1 A1_def stretch_fields
  show "tasks (await_step i (await_step i w)) =
          (tasks w)[i := \<lparr>callee = Open, awaited = [], cont = Settled Resolved\<rparr>]"
    unfolding unfold W2 using i t by (simp add: facts)
  show "isOpen (await_step i (await_step i w)) = isOpen w"
    unfolding unfold W2 by (simp add: facts)
  show "parent (await_step i (await_step i w)) = (parent w)(popupEl w \<mapsto> rootElement w)"
    unfolding unfold W2 by (simp add: facts)
  show "log (await_step i (await_step i w)) =
           log w @ [AppendChild (rootElement w) (popupEl w)]
           @ (case positionCleanup w of None \<Rightarrow> [] | Some n \<Rightarrow> [PositionCleanedUp n])
           @ [PositionInstalled (installations w), InitializePickerView]
           @ (if animateSupported w then [Animate ''show-picker''] else [])
           @ [InitializePickerView, SetInitialFocus,
              Emit ''picker:open'' (listeners ''picker:open'' w)]"
    unfolding unfold W2 by (simp add: facts open_initiated_log listeners_def)
  show "positionCleanup (await_step i (await_step i w)) = Some (installations w)"
    unfolding unfold W2 by (simp add: facts)
  show "popupEl (await_step i (await_step i w)) = popupEl w"
    unfolding unfold W2 by (simp add: facts)
  show "rootElement (await_step i (await_step i w)) = rootElement w"
    unfolding unfold W2 by (simp add: facts)
  show "externalEvents (await_step i (await_step i w)) = externalEvents w"
    unfolding unfold W2 by (simp add: facts)
  show "clickListener (await_step i (await_step i w)) = clickListener w"
    unfolding unfold W2 by (simp add: facts)
qed

text \<open>A pending call of \<open>close\<close>, followed through its two awaits.\<close>

lemma close_task_runs:
  assumes i: "i < length (tasks w)"
    and t: "tasks w ! i = \<lparr>callee = Close, awaited = R, cont = CloseInitiated\<rparr>"
    and R: "awaitable w R"
  shows "tasks (await_step i (await_step i w)) =
           (tasks w)[i := \<lparr>callee = Close, awaited = [],
              cont = Settled (case positionCleanup w of
                                None \<Rightarrow> Rejected TypeError | Some n \<Rightarrow> Resolved)\<rparr>]"
    and "isOpen (await_step i (await_step i w)) = isOpen w"
    and "parent (await_step i (await_step i w)) = (parent w)(popupEl w := None)"
    and "log (await_step i (await_step i w)) =
           log w @ (if animateSupported w then [Animate ''hide-picker''] else [])
           @ [RemoveElement (popupEl w), PickerReset]
           @ (case positionCleanup w of None \<Rightarrow> [] | Some n \<Rightarrow> [PositionCleanedUp n])"
    and "installed (await_step i (await_step i w)) =
           (case positionCleanup w of
              None \<Rightarrow> installed w | Some n \<Rightarrow> removeAll n (installed w))"
    and "positionCleanup (await_step i (await_step i w)) = positionCleanup w"
    and "popupEl (await_step i (await_step i w)) = popupEl w"
    and "rootElement (await_step i (await_step i w)) = rootElement w"
    and "externalEvents (await_step i (await_step i w)) = externalEvents w"
    and "clickListener (await_step i (await_step i w)) = clickListener w"
proof -
  define A1 where "A1 = fold finish R w"
  define W1 where "W1 = await_step i w"
  define p where "p = fst (close_initiated A1)"
  define A2 where "A2 = fold finish p W1"
  define W2 where "W2 = await_step i W1"
  from i t R have W1: "W1 = continue i p CloseAnimated (snd (close_initiated A1))"
    by (simp add: W1_def p_def A1_def await_CloseInitiated)
  have t1: "i < length (tasks W1)"
    "tasks W1 ! i = \<lparr>callee = Close, awaited = p, cont = CloseAnimated\<rparr>"
    using i t by (simp_all add: W1 A1_def close_initiated_def stretch_fields)
  have "awaitable W1 p"
    using animate_awaitable [of False A1]
    by (simp add: W1 p_def awaitable_iff close_initiated_def stretch_fields)
  with t1 have W2: "W2 = continue i [] (Settled (fst (close_animated A2)))
      (snd (close_animated A2))"
    by (simp add: W2_def A2_def await_CloseAnimated)
  note unfold = W2_def [symmetric] W1_def [symmetric]
  note facts = close_animated_outcome A2_def W1 A1_def close_initiated_def stretch_fields
  show "tasks (await_step i (await_step i w)) =
           (tasks w)[i := \<lparr>callee = Close, awaited = [],
              cont = Settled (case positionCleanup w of
                                None \<Rightarrow> Rejected TypeError | Some n \<Rightarrow> Resolved)\<rparr>]"
    unfolding unfold W2 using i t by (simp add: facts)
  show "isOpen (await_step i (await_step i w)) = isOpen w"
    unfolding unfold W2 by (simp add: facts)
  show "parent (await_step i (await_step i w)) = (parent w)(popupEl w := None)"
    unfolding unfold W2 by (simp add: facts)
  show "log (await_step i (await_step i w)) =
           log w @ (if animateSupported w then [Animate ''hide-picker''] else [])
           @ [RemoveElement (popupEl w), PickerReset]
           @ (case positionCleanup w of None \<Rightarrow> [] | Some n \<Rightarrow> [PositionCleanedUp n])"
    unfolding unfold W2 by (simp add: facts animate_log)
  show "installed (await_step i (await_step i w)) =
           (case positionCleanup w of
              None \<Rightarrow> installed w | Some n \<Rightarrow> removeAll n (installed w))"
    unfolding unfold W2 by (simp add: facts split: option.splits)
  show "positionCleanup (await_step i (await_step i w)) = positionCleanup w"
    unfolding unfold W2 by (simp add: facts)
  show "popupEl (await_step i (await_step i w)) = popupEl w"
    unfolding unfold W2 by (simp add: facts)
  show "rootElement (await_step i (await_step i w)) = rootElement w"
    unfolding unfold W2 by (simp add: facts)
  show "externalEvents (await_step i (await_step i w)) = externalEvents w"
    unfolding unfold W2 by (simp add: facts)
  show "clickListener (await_step i (await_step i w)) = clickListener w"
    unfolding unfold W2 by (simp add: facts)
qed

subsection \<open>Opening and closing\<close>

lemma run_open_closed:
  assumes closed: "\<not> isOpen w"
  shows "tasks (run_open w) =
           tasks w @ [\<lparr>callee = Open, awaited = [], cont = Settled Resolved\<rparr>]"
    and "isOpen (run_open w)"
    and "parent (run_open w) = (parent w)(popupEl w \<mapsto> rootElement w)"
    and "log (run_open w) =
           log w @ [AppendChild (rootElement w) (popupEl w)]
           @ (case positionCleanup w of None \<Rightarrow> [] | Some n \<Rightarrow> [PositionCleanedUp n])
           @ [PositionInstalled (installations w), InitializePickerView]
           @ (if animateSupported w then [Animate ''show-picker''] else [])
           @ [InitializePickerView, SetInitialFocus,
              Emit ''picker:open'' (listeners ''picker:open'' w)]"
    and "positionCleanup (run_open w) = Some (installations w)"
    and "popupEl (run_open w) = popupEl w"
    and "rootElement (run_open w) = rootElement w"
proof -
  let ?R = "getRunningAnimations w"
  let ?i = "length (tasks w)"
  have W0: "open w = w\<lparr>isOpen := True,
               tasks := tasks w @ [\<lparr>callee = Open, awaited = ?R, cont = OpenInitiated\<rparr>]\<rparr>"
    using closed by (rule open_closed_world)
  have i: "?i < length (tasks (open w))"
    and t: "tasks (open w) ! ?i = \<lparr>callee = Open, awaited = ?R, cont = OpenInitiated\<rparr>"
    by (simp_all add: W0)
  have R: "awaitable (open w) ?R"
    using awaitable_running [of w] by (simp add: W0 awaitable_iff)
  have run: "run_open w = await_step ?i (await_step ?i (open w))"
    by (simp add: run_open_def Let_def)
  note runs = open_task_runs [OF i t R, folded run]
  show "tasks (run_open w) =
          tasks w @ [\<lparr>callee = Open, awaited = [], cont = Settled Resolved\<rparr>]"
    by (simp add: runs(1)) (simp add: W0)
  show "isOpen (run_open w)"
    by (simp add: runs(2)) (simp add: W0)
  show "parent (run_open w) = (parent w)(popupEl w \<mapsto> rootElement w)"
    by (simp add: runs(3)) (simp add: W0)
  show "log (run_open w) =
           log w @ [AppendChild (rootElement w) (popupEl w)]
           @ (case positionCleanup w of None \<Rightarrow> [] | Some n \<Rightarrow> [PositionCleanedUp n])
           @ [PositionInstalled (installations w), InitializePickerView]
           @ (if animateSupported w then [Animate ''show-picker''] else [])
           @ [InitializePickerView, SetInitialFocus,
              Emit ''picker:open'' (listeners ''picker:open'' w)]"
    by (simp add: runs(4)) (simp add: W0 listeners_def)
  show "positionCleanup (run_open w) = Some (installations w)"
    by (simp add: runs(5)) (simp add: W0)
  show "popupEl (run_open w) = popupEl w"
    by (simp add: runs(6)) (simp add: W0)
  show "rootElement (run_open w) = rootElement w"
    by (simp add: runs(7)) (simp add: W0)
qed

lemma run_close_open:
  assumes opened: "isOpen w"
  shows "tasks (run_close w) =
           tasks w @ [\<lparr>callee = Close, awaited = [],
              cont = Settled (case positionCleanup w of
                                None \<Rightarrow> Rejected TypeError | Some n \<Rightarrow> Resolved)\<rparr>]"
    and "\<not> isOpen (run_close w)"
    and "parent (run_close w) = (parent w)(popupEl w := None)"
    and "log (run_close w) =
           log w @ (if animateSupported w then [Animate ''hide-picker''] else [])
           @ [RemoveElement (popupEl w), PickerReset]
           @ (case positionCleanup w of None \<Rightarrow> [] | Some n \<Rightarrow> [PositionCleanedUp n])"
    and "installed (run_close w) =
           (case positionCleanup w of
              None \<Rightarrow> installed w | Some n \<Rightarrow> removeAll n (installed w))"
    and "popupEl (run_close w) = popupEl w"
    and "positionCleanup (run_close w) = positionCleanup w"
proof -
  let ?R = "getRunningAnimations w"
  let ?i = "length (tasks w)"
  have W0: "close w = w\<lparr>isOpen := False,
               tasks := tasks w @ [\<lparr>callee = Close, awaited = ?R, cont = CloseInitiated\<rparr>]\<rparr>"
    using opened by (rule close_open_world)
  have i: "?i < length (tasks (close w))"
    and t: "tasks (close w) ! ?i = \<lparr>callee = Close, awaited = ?R, cont = CloseInitiated\<rparr>"
    by (simp_all add: W0)
  have R: "awaitable (close w) ?R"
    using awaitable_running [of w] by (simp add: W0 awaitable_iff)
  have run: "run_close w = await_step ?i (await_step ?i (close w))"
    by (simp add: run_close_def Let_def)
  note runs = close_task_runs [OF i t R, folded run]
  show "tasks (run_close w) =
           tasks w @ [\<lparr>callee = Close, awaited = [],
              cont = Settled (case positionCleanup w of
                                None \<Rightarrow> Rejected TypeError | Some n \<Rightarrow> Resolved)\<rparr>]"
    by (simp add: runs(1)) (simp add: W0)
  show "\<not> isOpen (run_close w)"
    by (simp add: runs(2)) (simp add: W0)
  show "parent (run_close w) = (parent w)(popupEl w := None)"
    by (simp add: runs(3)) (simp add: W0)
  show "log (run_close w) =
           log w @ (if animateSupported w then [Animate ''hide-picker''] else [])
           @ [RemoveElement (popupEl w), PickerReset]
           @ (case positionCleanup w of None \<Rightarrow> [] | Some n \<Rightarrow> [PositionCleanedUp n])"
    by (simp add: runs(4)) (simp add: W0)
  show "installed (run_close w) =
           (case positionCleanup w of
              None \<Rightarrow> installed w | Some n \<Rightarrow> removeAll n (installed w))"
    by (simp add: runs(5)) (simp add: W0 split: option.splits)
  show "popupEl (run_close w) = popupEl w"
    by (simp add: runs(7)) (simp add: W0)
  show "positionCleanup (run_close w) = positionCleanup w"
    by (simp add: runs(6)) (simp add: W0)
qed

lemma run_open_open: "isOpen w \<Longrightarrow> run_open w = open w"
  by (simp add: run_open_def Let_def open_open_world await_Settled)

lemma run_close_closed: "\<not> isOpen w \<Longrightarrow> run_close w = close w"
  by (simp add: run_close_def Let_def close_closed_world await_Settled)

lemma isOpen_run_open: "isOpen (run_open w)"
  by (cases "isOpen w") (simp_all add: run_open_closed run_open_open open_open_world)

lemma isOpen_run_close: "\<not> isOpen (run_close w)"
  by (cases "isOpen w") (simp_all add: run_close_open run_close_closed close_closed_world)

text \<open>
  C4. A call of \<open>open\<close> on an open picker, or of \<open>close\<close> on a closed one, returns a
  promise that is resolved at once and changes nothing else: the fields of the
  controller, the DOM and the record of emitted events are as before, and there is no
  later stretch to run. Hence opening twice is opening once, and closing twice is closing
  once, up to the second promise.
\<close>

theorem open_close_idempotent:
  "(isOpen w \<longrightarrow>
      open w = w\<lparr>tasks := tasks w @
                  [\<lparr>callee = Open, awaited = [], cont = Settled Resolved\<rparr>]\<rparr> \<and>
      run_open w = open w) \<and>
   (\<not> isOpen w \<longrightarrow>
      close w = w\<lparr>tasks := tasks w @
                   [\<lparr>callee = Close, awaited = [], cont = Settled Resolved\<rparr>]\<rparr> \<and>
      run_close w = close w) \<and>
   run_open (run_open w) =
     (run_open w)\<lparr>tasks := tasks (run_open w) @
                    [\<lparr>callee = Open, awaited = [], cont = Settled Resolved\<rparr>]\<rparr> \<and>
   run_close (run_close w) =
     (run_close w)\<lparr>tasks := tasks (run_close w) @
                     [\<lparr>callee = Close, awaited = [], cont = Settled Resolved\<rparr>]\<rparr>"
proof (intro conjI impI)
  assume "isOpen w"
  then show "open w = w\<lparr>tasks := tasks w @
      [\<lparr>callee = Open, awaited = [], cont = Settled Resolved\<rparr>]\<rparr>"
    by (rule open_open_world)
  from \<open>isOpen w\<close> show "run_open w = open w"
    by (rule run_open_open)
next
  assume "\<not> isOpen w"
  then show "close w = w\<lparr>tasks := tasks w @
      [\<lparr>callee = Close, awaited = [], cont = Settled Resolved\<rparr>]\<rparr>"
    by (rule close_closed_world)
  from \<open>\<not> isOpen w\<close> show "run_close w = close w"
    by (rule run_close_closed)
next
  show "run_open (run_open w) =
     (run_open w)\<lparr>tasks := tasks (run_open w) @
                    [\<lparr>callee = Open, awaited = [], cont = Settled Resolved\<rparr>]\<rparr>"
    using isOpen_run_open [of w] by (simp add: run_open_open open_open_world)
  show "run_close (run_close w) =
     (run_close w)\<lparr>tasks := tasks (run_close w) @
                     [\<lparr>callee = Close, awaited = [], cont = Settled Resolved\<rparr>]\<rparr>"
    using isOpen_run_close [of w] by (simp add: run_close_closed close_closed_world)
qed

theorem open_close_idempotent_witness:
  "open (run_open example_controller) =
     (run_open example_controller)\<lparr>tasks :=
        [\<lparr>callee = Open, awaited = [], cont = Settled Resolved\<rparr>,
         \<lparr>callee = Open, awaited = [], cont = Settled Resolved\<rparr>]\<rparr> \<and>
   close example_controller =
     example_controller\<lparr>tasks := [\<lparr>callee = Close, awaited = [], cont = Settled Resolved\<rparr>]\<rparr>"
proof -
  note [simp] = example_open_eq
  have state: "isOpen (run_open example_controller)" "\<not> isOpen example_controller"
    "tasks (run_open example_controller) =
       [\<lparr>callee = Open, awaited = [], cont = Settled Resolved\<rparr>]"
    "tasks example_controller = []"
    by (simp, simp add: example_controller_eq, simp, simp add: example_controller_eq)
  show ?thesis
    using open_close_idempotent [of "run_open example_controller"]
      open_close_idempotent [of example_controller] state
    by simp
qed

subsection \<open>Destroying the controller\<close>





subsection \<open>Positioning\<close>

lemma positioned_setPosition: "positioned w \<Longrightarrow> positioned (setPosition w)"
  by (auto simp add: positioned_def setPosition_installs split: option.splits)

lemma installed_setPosition: "positioned w \<Longrightarrow> installed (setPosition w) = [installations w]"
  by (auto simp add: positioned_def setPosition_installs split: option.splits)

lemma positioned_cong:
  "installed w' = installed w \<Longrightarrow> positionCleanup w' = positionCleanup w \<Longrightarrow>
     positioned w' = positioned w"
  by (simp add: positioned_def)

lemma positioned_open_initiated: "positioned w \<Longrightarrow> positioned (snd (open_initiated w))"
proof -
  assume "positioned w"
  then have "positioned (appendChild (rootElement w) (popupEl w) w)"
    by (simp add: positioned_def appendChild_def logged_def)
  then have "positioned (setPosition (appendChild (rootElement w) (popupEl w) w))"
    by (rule positioned_setPosition)
  then show ?thesis
    by (simp add: open_initiated_def Let_def positioned_def animate_fields logged_def)
qed

lemma positioned_close_animated: "positioned w \<Longrightarrow> positioned (snd (close_animated w))"
  by (auto simp add: positioned_def close_animated_fields close_animated_outcome
      split: option.splits)

lemma positioned_close: "positioned w \<Longrightarrow> positioned (close w)"
  by (cases "isOpen w") (simp_all add: positioned_def close_open_world close_closed_world)

lemma positioned_open: "positioned w \<Longrightarrow> positioned (open w)"
  by (cases "isOpen w") (simp_all add: positioned_def open_open_world open_closed_world)

lemma positioned_destroy_closed: "positioned w \<Longrightarrow> positioned (destroy_closed w)"
  by (simp add: positioned_def destroy_closed_eq)

lemma positioned_continue: "positioned (continue i p k w) = positioned w"
  by (simp add: positioned_def continue_def)

lemma positioned_resume: "positioned w \<Longrightarrow> positioned (resume i w)"
  by (auto simp add: resume_def positioned_continue split_beta close_initiated_def
      positioned_open_initiated positioned_close_animated positioned_destroy_closed
      open_animated_eq positioned_cong [of "snd (animateOpenStateChange False w)" w]
      animate_fields positioned_cong [of "w\<lparr>log := l\<rparr>" w for l]
      split: continuation.splits outcome.splits)

lemma positioned_exec: "positioned w \<Longrightarrow> positioned (exec a w)"
proof (cases a)
  case CallDestroy
  assume "positioned w"
  then show ?thesis
    unfolding CallDestroy
    by (cases "isOpen w")
      (simp_all add: destroy_def spawn_def positioned_def destroy_closed_eq close_open_world)
next
  case (Resume i)
  assume "positioned w"
  then show ?thesis
    unfolding Resume by (simp add: positioned_resume)
qed (simp_all add: positioned_open positioned_close toggle_def on_def logged_def
    onDocumentClick_def handleKeydown_def Let_def finish_def
    positioned_cong [of "w\<lparr>animations := l\<rparr>" w for l]
    positioned_cong [of "w\<lparr>externalEvents := es, log := l\<rparr>" w for es l])

lemma positioned_run: "positioned w \<Longrightarrow> positioned (run acts w)"
  unfolding run_def by (induction acts arbitrary: w) (simp_all add: positioned_exec)

lemma positioned_constructor: "positioned (PopupPickerController opts el page)"
  by (simp add: PopupPickerController_def positioned_def logged_def Let_def)

lemma positioned_at_most_one: "positioned w \<Longrightarrow> length (installed w) \<le> 1"
  by (auto simp add: positioned_def split: option.splits)

lemma installed_run_close: "positioned w \<Longrightarrow> isOpen w \<Longrightarrow> installed (run_close w) = []"
  by (auto simp add: run_close_open positioned_def split: option.splits)

text \<open>
  C6. In every state that a controller can reach from its construction, by any calls,
  events and interleaving of the pending calls, at most one positioning is installed.
  \<open>setPosition\<close> calls the previous cleanup function, when there is one, before it
  installs the new positioning, which is then the only one installed. \<open>close\<close>, followed
  to its end, removes the popup element, resets the picker and then calls the cleanup
  function; after it no positioning is installed.
\<close>

theorem at_most_one_positioning:
  "length (installed (run acts (PopupPickerController opts el page))) \<le> 1 \<and>
   installed (setPosition (run acts (PopupPickerController opts el page))) =
     [installations (run acts (PopupPickerController opts el page))] \<and>
   log (setPosition w) =
     log w @ (case positionCleanup w of None \<Rightarrow> [] | Some n \<Rightarrow> [PositionCleanedUp n])
     @ [PositionInstalled (installations w)] \<and>
   (isOpen w \<longrightarrow>
      log (run_close w) =
        log w @ (if animateSupported w then [Animate ''hide-picker''] else [])
        @ [RemoveElement (popupEl w), PickerReset]
        @ (case positionCleanup w of None \<Rightarrow> [] | Some n \<Rightarrow> [PositionCleanedUp n])) \<and>
   (isOpen (run acts (PopupPickerController opts el page)) \<longrightarrow>
      installed (run_close (run acts (PopupPickerController opts el page))) = [])"
proof -
  let ?w = "run acts (PopupPickerController opts el page)"
  have inv: "positioned ?w"
    by (rule positioned_run) (rule positioned_constructor)
  have one: "length (installed ?w) \<le> 1"
    using inv by (rule positioned_at_most_one)
  have new: "installed (setPosition ?w) = [installations ?w]"
    using inv by (rule installed_setPosition)
  have order: "log (setPosition w) =
     log w @ (case positionCleanup w of None \<Rightarrow> [] | Some n \<Rightarrow> [PositionCleanedUp n])
     @ [PositionInstalled (installations w)]"
    by (rule setPosition_installs)
  have closing: "isOpen w \<longrightarrow>
      log (run_close w) =
        log w @ (if animateSupported w then [Animate ''hide-picker''] else [])
        @ [RemoveElement (popupEl w), PickerReset]
        @ (case positionCleanup w of None \<Rightarrow> [] | Some n \<Rightarrow> [PositionCleanedUp n])"
    by (simp add: run_close_open)
  have none: "isOpen ?w \<longrightarrow> installed (run_close ?w) = []"
    using inv by (simp add: installed_run_close)
  from one new order closing none show ?thesis
    by blast
qed

theorem at_most_one_positioning_witness:
  "isOpen (run [CallOpen, Resume 0, AnimationFinished 0, Resume 0] example_controller) \<and>
   length (installed
     (run [CallOpen, Resume 0, AnimationFinished 0, Resume 0] example_controller)) \<le> 1 \<and>
   installed (run_close
     (run [CallOpen, Resume 0, AnimationFinished 0, Resume 0] example_controller)) = [] \<and>
   installed (run [CallOpen, Resume 0, AnimationFinished 0, Resume 0] example_controller) = [0]"
proof -
  have opened: "isOpen (run [CallOpen, Resume 0, AnimationFinished 0, Resume 0] example_controller)"
    and one: "installed
      (run [CallOpen, Resume 0, AnimationFinished 0, Resume 0] example_controller) = [0]"
    unfolding example_controller_eq by (simp_all add: run_def model_defs)
  show ?thesis
    using at_most_one_positioning
      [of "[CallOpen, Resume 0, AnimationFinished 0, Resume 0]" example_options 10 example_page
        "run [CallOpen, Resume 0, AnimationFinished 0, Resume 0] example_controller",
        folded example_controller_def] opened one
    by simp
qed

subsection \<open>Waiting for running animations\<close>

lemma animate_animations:
  "\<exists>new. animations (snd (animateOpenStateChange b w)) = animations w @ new"
  by (simp add: animateOpenStateChange_def Let_def logged_def)

lemma open_initiated_animations:
  "\<exists>new. animations (snd (open_initiated w)) = animations w @ new"
  using animate_animations
    [of True "logged InitializePickerView
       (setPosition (appendChild (rootElement w) (popupEl w) w))"]
  by (simp add: open_initiated_def Let_def logged_def setPosition_fields appendChild_def)

lemma resume_animations:
  "\<exists>new. animations (resume i w) = animations w @ new"
proof (cases "i < length (tasks w) \<and> ready w (tasks w ! i)")
  case False
  then show ?thesis by (auto simp add: resume_def)
next
  case True
  show ?thesis
  proof (cases "cont (tasks w ! i)")
    case OpenInitiated
    with True show ?thesis
      using open_initiated_animations [of w]
      by (simp add: resume_def split_beta continue_fields)
  next
    case OpenAnimated
    with True show ?thesis
      by (simp add: resume_def continue_fields open_animated_eq)
  next
    case CloseInitiated
    with True show ?thesis
      using animate_animations [of False w]
      by (simp add: resume_def split_beta continue_fields close_initiated_def)
  next
    case CloseAnimated
    with True show ?thesis
      by (simp add: resume_def split_beta continue_fields close_animated_fields)
  next
    case (DestroyClosing c)
    with True show ?thesis
      by (simp add: resume_def continue_fields destroy_closed_eq
          split: continuation.splits outcome.splits)
  next
    case (Settled r)
    with True show ?thesis
      by (simp add: resume_def)
  qed
qed

lemma close_animations: "animations (close w) = animations w"
  by (cases "isOpen w") (simp_all add: close_open_world close_closed_world)

lemma open_animations: "animations (open w) = animations w"
  by (cases "isOpen w") (simp_all add: open_open_world open_closed_world)

lemma destroy_animations: "animations (destroy w) = animations w"
  by (simp add: destroy_def spawn_def close_animations destroy_closed_eq Let_def)

text \<open>An animation that has finished stays finished, whatever happens.\<close>

lemma finished_stays:
  assumes "j < length (animations w)" "playState (animations w ! j) = Finished"
  shows "j < length (animations (exec a w)) \<and>
         playState (animations (exec a w) ! j) = Finished"
proof (cases a)
  case (AnimationFinished i)
  with assms show ?thesis
    by (simp add: finish_def playState_end_animation)
next
  case (Resume i)
  obtain new where "animations (resume i w) = animations w @ new"
    using resume_animations by blast
  with assms Resume show ?thesis
    by (simp add: nth_append)
qed (use assms in \<open>simp_all add: open_animations close_animations destroy_animations
    toggle_def on_def logged_def onDocumentClick_def handleKeydown_def Let_def\<close>)

lemma animations_grow: "length (animations w) \<le> length (animations (exec a w))"
proof (cases a)
  case (Resume i)
  obtain new where "animations (resume i w) = animations w @ new"
    using resume_animations by blast
  with Resume show ?thesis by simp
qed (simp_all add: open_animations close_animations destroy_animations finish_def
    toggle_def on_def logged_def onDocumentClick_def handleKeydown_def Let_def)

lemma spawn_tasks: "tasks (spawn t w) = tasks w @ [t]"
  by (simp add: spawn_def)

lemma close_tasks: "\<exists>t. tasks (close w) = tasks w @ [t]"
  by (cases "isOpen w") (simp_all add: close_open_world close_closed_world)

lemma open_tasks: "\<exists>t. tasks (open w) = tasks w @ [t]"
  by (cases "isOpen w") (simp_all add: open_open_world open_closed_world)

lemma destroy_tasks: "\<exists>ts. tasks (destroy w) = tasks w @ ts"
  by (cases "isOpen w")
    (simp_all add: destroy_def spawn_def close_open_world destroy_closed_eq Let_def)

lemma resume_tasks:
  "length (tasks (resume j w)) = length (tasks w) \<and>
   (i \<noteq> j \<longrightarrow> tasks (resume j w) ! i = tasks w ! i)"
  by (simp add: resume_def split_beta continue_fields open_initiated_fields
      close_initiated_def animate_fields close_animated_fields open_animated_eq
      destroy_closed_eq split: continuation.splits outcome.splits)

text \<open>Only its own next stretch changes a task.\<close>

lemma task_stays:
  assumes "i < length (tasks w)" "a \<noteq> Resume i"
  shows "i < length (tasks (exec a w)) \<and> tasks (exec a w) ! i = tasks w ! i"
proof (cases a)
  case CallOpen
  obtain t where "tasks (open w) = tasks w @ [t]"
    using open_tasks by blast
  with assms CallOpen show ?thesis by (simp add: nth_append)
next
  case CallClose
  obtain t where "tasks (close w) = tasks w @ [t]"
    using close_tasks by blast
  with assms CallClose show ?thesis by (simp add: nth_append)
next
  case CallToggle
  obtain t t' where "tasks (close w) = tasks w @ [t]" "tasks (open w) = tasks w @ [t']"
    using close_tasks open_tasks by blast
  with assms CallToggle show ?thesis by (simp add: nth_append toggle_def)
next
  case CallDestroy
  obtain ts where "tasks (destroy w) = tasks w @ ts"
    using destroy_tasks by blast
  with assms CallDestroy show ?thesis by (simp add: nth_append)
next
  case (CallOn event cb)
  with assms show ?thesis by (simp add: on_def logged_def)
next
  case (Click event)
  obtain t where "tasks (close w) = tasks w @ [t]"
    using close_tasks by blast
  with assms Click show ?thesis by (simp add: nth_append onDocumentClick_def Let_def)
next
  case (Keydown event)
  obtain t where "tasks (close w) = tasks w @ [t]"
    using close_tasks by blast
  with assms Keydown show ?thesis by (simp add: nth_append handleKeydown_def)
next
  case EmojiSelect
  obtain t where "tasks (close w) = tasks w @ [t]"
    using close_tasks by blast
  with assms EmojiSelect show ?thesis by (simp add: nth_append)
next
  case (AnimationFinished j)
  with assms show ?thesis by (simp add: finish_def)
next
  case (Resume j)
  with assms have "i \<noteq> j" by simp
  with assms Resume show ?thesis
    using resume_tasks [of j w i] by simp
qed

lemma resume_leaves_initiated:
  assumes "i < length (tasks w)" "ready w (tasks w ! i)"
  shows "cont (tasks (resume i w) ! i) \<noteq> OpenInitiated \<and>
         cont (tasks (resume i w) ! i) \<noteq> CloseInitiated"
  using assms
  by (auto simp add: resume_def ready_def settled_def split_beta continue_fields
      open_initiated_fields close_initiated_def animate_fields close_animated_fields
      open_animated_eq destroy_closed_eq split: continuation.splits outcome.splits)

lemma resume_not_ready: "\<not> (i < length (tasks w) \<and> ready w (tasks w ! i)) \<Longrightarrow> resume i w = w"
  by (auto simp add: resume_def)

lemma ready_initiated:
  assumes "ready w t" "cont t = OpenInitiated \<or> cont t = CloseInitiated"
  shows "list_all (\<lambda>a. playState (animations w ! a) = Finished) (awaited t)"
  using assms by (auto simp add: ready_def list_all_iff)

lemma all_finished_stay:
  assumes "list_all (\<lambda>a. a < length (animations w)) R"
    and "list_all (\<lambda>a. playState (animations w ! a) = Finished) R"
  shows "list_all (\<lambda>a. playState (animations (exec a' w) ! a) = Finished) R"
  using assms finished_stays [of _ w a'] by (auto simp add: list_all_iff)

lemma all_animations_stay:
  assumes "list_all (\<lambda>a. a < length (animations w)) R"
  shows "list_all (\<lambda>a. a < length (animations (exec a' w))) R"
  using assms animations_grow [of w a'] by (auto simp add: list_all_iff)

text \<open>
  The waiting of a call of \<open>open\<close> or \<open>close\<close> at its first await is kept by every step.
\<close>

lemma waited_exec:
  assumes inv: "waited i R k w" and k: "k = OpenInitiated \<or> k = CloseInitiated"
  shows "waited i R k (exec a w)"
proof -
  from inv have i: "i < length (tasks w)"
    and R: "list_all (\<lambda>a. a < length (animations w)) R"
    by (simp_all add: waited_def)
  note R' = all_animations_stay [OF R, of a]
  show ?thesis
  proof (cases "a = Resume i")
    case other: False
    then have same: "i < length (tasks (exec a w))" "tasks (exec a w) ! i = tasks w ! i"
      using task_stays [OF i, of a] by simp_all
    show ?thesis
    proof (cases "cont (tasks w ! i) = k")
      case True
      with inv same R' show ?thesis by (simp add: waited_def)
    next
      case False
      with inv have "list_all (\<lambda>a. playState (animations w ! a) = Finished) R"
        by (simp add: waited_def)
      then have "list_all (\<lambda>b. playState (animations (exec a w) ! b) = Finished) R"
        by (rule all_finished_stay [OF R])
      with False same R' show ?thesis by (simp add: waited_def)
    qed
  next
    case own: True
    show ?thesis
    proof (cases "ready w (tasks w ! i)")
      case False
      then have "exec a w = w"
        using own by (simp add: resume_not_ready)
      with inv show ?thesis by simp
    next
      case True
      have len: "i < length (tasks (exec a w))"
        using i resume_tasks [of i w i] own by simp
      have gone: "cont (tasks (exec a w) ! i) \<noteq> k"
        using resume_leaves_initiated [OF i True] k own by auto
      have "list_all (\<lambda>a. playState (animations w ! a) = Finished) R"
      proof (cases "cont (tasks w ! i) = k")
        case True
        with inv have "awaited (tasks w ! i) = R"
          by (simp add: waited_def)
        with ready_initiated [OF \<open>ready w (tasks w ! i)\<close>] True k show ?thesis
          by auto
      next
        case False
        with inv show ?thesis by (simp add: waited_def)
      qed
      then have "list_all (\<lambda>b. playState (animations (exec a w) ! b) = Finished) R"
        by (rule all_finished_stay [OF R])
      with len gone R' show ?thesis by (simp add: waited_def)
    qed
  qed
qed

lemma waited_run:
  "waited i R k w \<Longrightarrow> k = OpenInitiated \<or> k = CloseInitiated \<Longrightarrow> waited i R k (run acts w)"
  unfolding run_def by (induction acts arbitrary: w) (simp_all add: waited_exec)

lemma waited_open:
  "\<not> isOpen w \<Longrightarrow> waited (length (tasks w)) (getRunningAnimations w) OpenInitiated (open w)"
  by (simp add: waited_def open_closed_world getRunningAnimations_def list_all_iff)

lemma waited_close:
  "isOpen w \<Longrightarrow> waited (length (tasks w)) (getRunningAnimations w) CloseInitiated (close w)"
  by (simp add: waited_def close_open_world getRunningAnimations_def list_all_iff)

lemma waited_gone:
  "waited i R k w \<Longrightarrow> cont (tasks w ! i) \<noteq> k \<Longrightarrow>
     list_all (\<lambda>a. playState (animations w ! a) = Finished) R"
  by (simp add: waited_def)

text \<open>
  C2. A call of \<open>open\<close> or \<open>close\<close> that starts a change of the open state marks the new
  state at once, starts no animation yet, and waits for the animations of the picker
  element that are running at that moment. Whatever else is called or happens
  afterwards, once the call has gone past this await, which is when it starts its show
  or hide animation, every animation it waited for has finished; and as long as one of
  them has not finished, the call cannot go on. An animation that another call starts
  after that moment is not waited for.
\<close>

theorem initiate_waits_for_running:
  "(\<not> isOpen w \<longrightarrow>
      isOpen (open w) \<and>
      animations (open w) = animations w \<and>
      tasks (open w) =
        tasks w @ [\<lparr>callee = Open, awaited = getRunningAnimations w, cont = OpenInitiated\<rparr>] \<and>
      (cont (tasks (run acts (open w)) ! length (tasks w)) \<noteq> OpenInitiated \<longrightarrow>
         list_all (\<lambda>a. playState (animations (run acts (open w)) ! a) = Finished)
           (getRunningAnimations w))) \<and>
   (isOpen w \<longrightarrow>
      \<not> isOpen (close w) \<and>
      animations (close w) = animations w \<and>
      tasks (close w) =
        tasks w @ [\<lparr>callee = Close, awaited = getRunningAnimations w, cont = CloseInitiated\<rparr>] \<and>
      (cont (tasks (run acts (close w)) ! length (tasks w)) \<noteq> CloseInitiated \<longrightarrow>
         list_all (\<lambda>a. playState (animations (run acts (close w)) ! a) = Finished)
           (getRunningAnimations w))) \<and>
   (j < length (tasks v) \<and>
    (cont (tasks v ! j) = OpenInitiated \<or> cont (tasks v ! j) = CloseInitiated) \<and>
    \<not> list_all (\<lambda>a. a < length (animations v) \<and> playState (animations v ! a) = Finished)
         (awaited (tasks v ! j)) \<longrightarrow>
      exec (Resume j) v = v)"
proof (intro conjI impI)
  assume closed: "\<not> isOpen w"
  then show "isOpen (open w)" "animations (open w) = animations w"
    "tasks (open w) =
       tasks w @ [\<lparr>callee = Open, awaited = getRunningAnimations w, cont = OpenInitiated\<rparr>]"
    by (simp_all add: open_closed_world)
  assume past: "cont (tasks (run acts (open w)) ! length (tasks w)) \<noteq> OpenInitiated"
  have "waited (length (tasks w)) (getRunningAnimations w) OpenInitiated (run acts (open w))"
    using closed by (simp add: waited_run waited_open)
  then show "list_all (\<lambda>a. playState (animations (run acts (open w)) ! a) = Finished)
      (getRunningAnimations w)"
    using past by (rule waited_gone)
next
  assume opened: "isOpen w"
  then show "\<not> isOpen (close w)" "animations (close w) = animations w"
    "tasks (close w) =
       tasks w @ [\<lparr>callee = Close, awaited = getRunningAnimations w, cont = CloseInitiated\<rparr>]"
    by (simp_all add: close_open_world)
  assume past: "cont (tasks (run acts (close w)) ! length (tasks w)) \<noteq> CloseInitiated"
  have "waited (length (tasks w)) (getRunningAnimations w) CloseInitiated (run acts (close w))"
    using opened by (simp add: waited_run waited_close)
  then show "list_all (\<lambda>a. playState (animations (run acts (close w)) ! a) = Finished)
      (getRunningAnimations w)"
    using past by (rule waited_gone)
next
  assume "j < length (tasks v) \<and>
    (cont (tasks v ! j) = OpenInitiated \<or> cont (tasks v ! j) = CloseInitiated) \<and>
    \<not> list_all (\<lambda>a. a < length (animations v) \<and> playState (animations v ! a) = Finished)
         (awaited (tasks v ! j))"
  then have "\<not> ready v (tasks v ! j)"
    by (auto simp add: ready_def)
  then show "exec (Resume j) v = v"
    by (simp add: resume_not_ready)
qed

text \<open>
  As the claim is stated, with the show or hide animation never running beside an
  animation started before it, it fails. On the closed picker of the example, \<open>toggle\<close>
  is called twice in one turn of the event loop. The first call is \<open>open\<close>: it marks the
  picker open and finds no running animation to wait for. The second is \<open>close\<close>: it
  marks the picker closed and, the show animation not being started yet, finds none
  either. Then the two calls go on in the order in which they were made: \<open>open\<close> starts
  the show animation, and \<open>close\<close> starts the hide animation while the show animation
  is running.
\<close>

theorem show_hide_overlap_counterexample:
  "map anim_id (animations (run [CallToggle, CallToggle, Resume 0, Resume 1] example_controller))
     = [''show-picker'', ''hide-picker''] \<and>
   map playState (animations (run [CallToggle, CallToggle, Resume 0, Resume 1] example_controller))
     = [Running, Running] \<and>
   overlapping (animations (run [CallToggle, CallToggle, Resume 0, Resume 1] example_controller))"
  unfolding example_controller_eq
  by (simp add: run_def model_defs)

theorem initiate_waits_for_running_witness:
  "\<not> isOpen example_busy \<and>
   getRunningAnimations example_busy = [0] \<and>
   cont (tasks (run [Resume 0] (open example_busy)) ! 0) = OpenInitiated \<and>
   cont (tasks (run [AnimationFinished 0, Resume 0] (open example_busy)) ! 0) = OpenAnimated \<and>
   list_all (\<lambda>a. playState (animations (run [AnimationFinished 0, Resume 0] (open example_busy)) ! a)
                   = Finished) (getRunningAnimations example_busy)"
proof -
  have closed: "\<not> isOpen example_busy"
    and empty: "length (tasks example_busy) = 0"
    and running: "getRunningAnimations example_busy = [0]"
    unfolding example_busy_def example_controller_eq
    by (simp_all add: getRunningAnimations_def)
  have blocked: "cont (tasks (run [Resume 0] (open example_busy)) ! 0) = OpenInitiated"
    and past: "cont (tasks (run [AnimationFinished 0, Resume 0] (open example_busy)) ! 0)
      = OpenAnimated"
    unfolding example_busy_def example_controller_eq
    by (simp_all add: run_def model_defs)
  from initiate_waits_for_running [of example_busy "[AnimationFinished 0, Resume 0]"]
    closed empty past
  have "list_all (\<lambda>a. playState (animations (run [AnimationFinished 0, Resume 0]
      (open example_busy)) ! a) = Finished) (getRunningAnimations example_busy)"
    by simp
  with closed running blocked past show ?thesis
    by blast
qed

subsection \<open>A call followed to its end is a run of the event loop\<close>

lemma run_append: "run (xs @ ys) w = run ys (run xs w)"
  by (simp add: run_def)

lemma run_finish: "run (map AnimationFinished xs) w = fold finish xs w"
proof -
  have "exec \<circ> AnimationFinished = finish"
    by (intro ext) simp
  then show ?thesis
    by (simp add: run_def fold_map)
qed

lemma await_step_run:
  "i < length (tasks w) \<Longrightarrow>
     await_step i w = run (map AnimationFinished (awaited (tasks w ! i)) @ [Resume i]) w"
  by (simp add: await_step_def run_append run_finish) (simp add: run_def)

lemma await_step_tasks: "length (tasks (await_step i w)) = length (tasks w)"
  using resume_tasks [of i "fold finish (awaited (tasks w ! i)) w" i]
  by (simp add: await_step_def)

text \<open>
  \<open>run_open\<close> and \<open>run_close\<close> are the runs in which the call is made, the animations it
  waits for finish, and the call goes on, twice.
\<close>

lemma run_open_schedule:
  "run_open w =
     (let i = length (tasks w);
          w1 = run [CallOpen] w;
          w2 = run (map AnimationFinished (awaited (tasks w1 ! i)) @ [Resume i]) w1
      in run (map AnimationFinished (awaited (tasks w2 ! i)) @ [Resume i]) w2)"
proof -
  obtain t where t: "tasks (open w) = tasks w @ [t]"
    using open_tasks by blast
  then have 1: "length (tasks w) < length (tasks (open w))"
    by simp
  then have 2: "length (tasks w) < length (tasks (await_step (length (tasks w)) (open w)))"
    by (simp add: await_step_tasks)
  have call: "run [CallOpen] w = open w"
    by (simp add: run_def)
  show ?thesis
    unfolding call Let_def
    by (simp only: await_step_run [OF 1, symmetric] await_step_run [OF 2, symmetric])
      (simp add: run_open_def Let_def)
qed

lemma run_close_schedule:
  "run_close w =
     (let i = length (tasks w);
          w1 = run [CallClose] w;
          w2 = run (map AnimationFinished (awaited (tasks w1 ! i)) @ [Resume i]) w1
      in run (map AnimationFinished (awaited (tasks w2 ! i)) @ [Resume i]) w2)"
proof -
  obtain t where t: "tasks (close w) = tasks w @ [t]"
    using close_tasks by blast
  then have 1: "length (tasks w) < length (tasks (close w))"
    by simp
  then have 2: "length (tasks w) < length (tasks (await_step (length (tasks w)) (close w)))"
    by (simp add: await_step_tasks)
  have call: "run [CallClose] w = close w"
    by (simp add: run_def)
  show ?thesis
    unfolding call Let_def
    by (simp only: await_step_run [OF 1, symmetric] await_step_run [OF 2, symmetric])
      (simp add: run_close_def Let_def)
qed

text \<open>The click listener is on the document as soon as the controller is constructed.\<close>

lemma constructor_listens:
  "clickListener (PopupPickerController opts el page) \<and>
   \<not> isOpen (PopupPickerController opts el page) \<and>
   tasks (PopupPickerController opts el page) = []"
  by (simp add: PopupPickerController_def logged_def Let_def)

subsection \<open>Opening and closing among other calls\<close>

text \<open>
  A call of \<open>open\<close> or \<open>close\<close> is pending over several turns of the event loop, and
  other calls, events and continuations run in between. What such a call has done when
  its promise is settled is proved by invariants of \<open>exec\<close>.
\<close>

lemma destroy_open_world:
  "isOpen v \<Longrightarrow>
     destroy v = v\<lparr>isOpen := False,
       tasks := tasks v @
         [\<lparr>callee = Close, awaited = getRunningAnimations v, cont = CloseInitiated\<rparr>,
          \<lparr>callee = Destroy, awaited = [], cont = DestroyClosing (length (tasks v))\<rparr>]\<rparr>"
  by (simp add: destroy_def spawn_def close_open_world Let_def)

lemma destroy_closed_world:
  "\<not> isOpen v \<Longrightarrow>
     destroy v = v\<lparr>clickListener := False, externalEvents := [],
       log := log v @ [RemoveClickListener, PickerDestroy, RemoveAll],
       tasks := tasks v @ [\<lparr>callee = Destroy, awaited = [], cont = Settled Resolved\<rparr>]\<rparr>"
  by (simp add: destroy_def spawn_def destroy_closed_eq)

text \<open>
  Every step is a call of \<open>open\<close>, \<open>close\<close>, \<open>destroy\<close> or \<open>on\<close>, the end of an
  animation, the next stretch of a task, or nothing.
\<close>

lemma exec_preserves:
  assumes "I v" "I (open v)" "I (close v)" "I (destroy v)" "\<And>e c. I (on e c v)"
    "\<And>k. I (finish k v)" "\<And>j. I (resume j v)"
  shows "I (exec a v)"
  using assms
  by (cases a) (simp_all add: toggle_def onDocumentClick_def handleKeydown_def Let_def)






lemma callees_continue: "map callee (tasks (continue j p k v)) = map callee (tasks v)"
proof (rule nth_equalityI)
  show "length (map callee (tasks (continue j p k v))) = length (map callee (tasks v))"
    by (simp add: continue_def)
next
  fix i
  assume "i < length (map callee (tasks (continue j p k v)))"
  then show "map callee (tasks (continue j p k v)) ! i = map callee (tasks v) ! i"
    by (cases "i = j") (simp_all add: continue_def)
qed

lemma resume_callees: "map callee (tasks (resume j v)) = map callee (tasks v)"
  by (simp add: resume_def split_beta callees_continue open_initiated_fields
      open_animated_eq close_initiated_def animate_fields close_animated_fields
      destroy_closed_eq split: continuation.splits outcome.splits)

lemma resume_isOpen: "isOpen (resume j v) = isOpen v"
  by (simp add: resume_def split_beta continue_fields open_initiated_fields open_animated_eq
      close_initiated_def animate_fields close_animated_fields destroy_closed_eq
      split: continuation.splits outcome.splits)

text \<open>
  The calls made so far are never forgotten, and the open state changes only in a call
  of \<open>close\<close> or \<open>open\<close>.
\<close>

lemma exec_callees:
  "\<exists>cs. map callee (tasks (exec a v)) = map callee (tasks v) @ cs \<and>
     (isOpen v \<and> \<not> isOpen (exec a v) \<longrightarrow> Close \<in> set cs) \<and>
     (\<not> isOpen v \<and> isOpen (exec a v) \<longrightarrow> Open \<in> set cs)"
proof (rule exec_preserves)
  show "\<exists>cs. map callee (tasks (open v)) = map callee (tasks v) @ cs \<and>
     (isOpen v \<and> \<not> isOpen (open v) \<longrightarrow> Close \<in> set cs) \<and>
     (\<not> isOpen v \<and> isOpen (open v) \<longrightarrow> Open \<in> set cs)"
    by (cases "isOpen v") (simp_all add: open_open_world open_closed_world)
  show "\<exists>cs. map callee (tasks (close v)) = map callee (tasks v) @ cs \<and>
     (isOpen v \<and> \<not> isOpen (close v) \<longrightarrow> Close \<in> set cs) \<and>
     (\<not> isOpen v \<and> isOpen (close v) \<longrightarrow> Open \<in> set cs)"
    by (cases "isOpen v") (simp_all add: close_open_world close_closed_world)
  show "\<exists>cs. map callee (tasks (destroy v)) = map callee (tasks v) @ cs \<and>
     (isOpen v \<and> \<not> isOpen (destroy v) \<longrightarrow> Close \<in> set cs) \<and>
     (\<not> isOpen v \<and> isOpen (destroy v) \<longrightarrow> Open \<in> set cs)"
    by (cases "isOpen v") (simp_all add: destroy_open_world destroy_closed_world)
qed (simp_all add: on_def logged_def finish_def resume_callees resume_isOpen)









lemma callees_kept:
  assumes "c \<in> set (drop n (map callee (tasks v)))"
  shows "c \<in> set (drop n (map callee (tasks (exec a v))))"
proof -
  obtain cs where "map callee (tasks (exec a v)) = map callee (tasks v) @ cs"
    using exec_callees by blast
  with assms show ?thesis by simp
qed




















subsection \<open>The variant popup\<close>

text \<open>
  C7. In a variant popup with \<open>n\<close> buttons, ArrowRight moves the focus from button \<open>i\<close>
  to button \<open>(i + 1) mod n\<close> and ArrowLeft to button \<open>(i - 1 + n) mod n\<close>, which are
  buttons of the popup again. From the last button ArrowRight leads to the first, from
  the first ArrowLeft leads to the last, and each of the two keys undoes the other.
\<close>

theorem arrow_keys_cycle:
  assumes "0 \<le> i" "i < n"
  shows "arrowKey ''ArrowRight'' n i = (i + 1) mod n \<and>
         arrowKey ''ArrowLeft'' n i = (i - 1 + n) mod n \<and>
         0 \<le> arrowKey ''ArrowRight'' n i \<and> arrowKey ''ArrowRight'' n i < n \<and>
         0 \<le> arrowKey ''ArrowLeft'' n i \<and> arrowKey ''ArrowLeft'' n i < n \<and>
         arrowKey ''ArrowRight'' n (n - 1) = 0 \<and>
         arrowKey ''ArrowLeft'' n 0 = n - 1 \<and>
         arrowKey ''ArrowLeft'' n (arrowKey ''ArrowRight'' n i) = i \<and>
         arrowKey ''ArrowRight'' n (arrowKey ''ArrowLeft'' n i) = i"
proof -
  from assms have n: "0 < n" by simp
  have right: "arrowKey ''ArrowRight'' n j = (if j = n - 1 then 0 else j + 1)"
    if "0 \<le> j" "j < n" for j
    using that by (simp add: arrowKey_def)
  have left: "arrowKey ''ArrowLeft'' n j = (if j = 0 then n - 1 else j - 1)"
    if "0 \<le> j" "j < n" for j
  proof (cases "j = 0")
    case True
    have "(n - 1) mod n = n - 1"
      using n by (intro mod_pos_pos_trivial) simp_all
    with True show ?thesis by (simp add: arrowKey_def)
  next
    case False
    have "(j - 1 + n) mod n = (j - 1) mod n"
      by simp
    also have "\<dots> = j - 1"
      using that False by (intro mod_pos_pos_trivial) simp_all
    finally show ?thesis using False by (simp add: arrowKey_def)
  qed
  have wrap_right: "arrowKey ''ArrowRight'' n (n - 1) = 0"
    using n by (simp add: right)
  have wrap_left: "arrowKey ''ArrowLeft'' n 0 = n - 1"
    using n by (simp add: left)
  have undo_right: "arrowKey ''ArrowLeft'' n (arrowKey ''ArrowRight'' n i) = i"
    using assms n by (simp add: right left)
  have undo_left: "arrowKey ''ArrowRight'' n (arrowKey ''ArrowLeft'' n i) = i"
    using assms n by (simp add: right left)
  have "arrowKey ''ArrowRight'' n i = (i + 1) mod n"
    "arrowKey ''ArrowLeft'' n i = (i - 1 + n) mod n"
    by (simp_all add: arrowKey_def)
  moreover have "0 \<le> arrowKey ''ArrowRight'' n i" "arrowKey ''ArrowRight'' n i < n"
    "0 \<le> arrowKey ''ArrowLeft'' n i" "arrowKey ''ArrowLeft'' n i < n"
    using assms n by (simp_all add: right left)
  ultimately show ?thesis
    using wrap_right wrap_left undo_right undo_left by blast
qed

text \<open>The test "navigates emojis with arrow keys", on the three buttons of its record.\<close>

theorem arrow_keys_cycle_witness:
  "arrowKey ''ArrowLeft'' 3 0 = 2 \<and>
   arrowKey ''ArrowRight'' 3 2 = 0 \<and>
   arrowKey ''ArrowRight'' 3 0 = 1 \<and>
   arrowKey ''ArrowRight'' 3 1 = 2 \<and>
   keyboard [''ArrowLeft'', ''ArrowRight'', ''ArrowRight'', ''ArrowRight'', ''ArrowRight'']
     (int (length (renderVariantPopup thumbs))) 0 = 0"
proof -
  have 1: "arrowKey ''ArrowLeft'' 3 0 = 2"
    using arrow_keys_cycle [of 0 3] by simp
  have 2: "arrowKey ''ArrowRight'' 3 2 = 0"
    using arrow_keys_cycle [of 2 3] by simp
  have 3: "arrowKey ''ArrowRight'' 3 0 = 1"
    using arrow_keys_cycle [of 0 3] by simp
  have 4: "arrowKey ''ArrowRight'' 3 1 = 2"
    using arrow_keys_cycle [of 1 3] by simp
  have "keyboard [''ArrowLeft'', ''ArrowRight'', ''ArrowRight'', ''ArrowRight'', ''ArrowRight'']
     (int (length (renderVariantPopup thumbs))) 0 = 0"
    by (simp add: keyboard_def renderVariantPopup_def thumbs_def 1 2 3 4)
  with 1 2 3 4 show ?thesis
    by blast
qed

text \<open>
  C8. The variant popup of an emoji record with \<open>k\<close> skin variants has \<open>k + 1\<close> buttons:
  the first shows the emoji of the record, the following ones show the emojis of the
  variants in the order of the \<open>skins\<close> array.
\<close>

theorem variant_popup_buttons:
  "length (renderVariantPopup e) = length (skins e) + 1 \<and>
   hd (renderVariantPopup e) = emoji e \<and>
   tl (renderVariantPopup e) = map skin_emoji (skins e) \<and>
   (\<forall>j < length (skins e). renderVariantPopup e ! (j + 1) = skin_emoji (skins e ! j))"
  by (simp add: renderVariantPopup_def)

text \<open>The test "renders the emoji and its variants".\<close>

theorem variant_popup_buttons_witness:
  "length (renderVariantPopup thumbs) = 3 \<and>
   renderVariantPopup thumbs ! 0 = ''U+1F44D'' \<and>
   renderVariantPopup thumbs ! 1 = ''U+1F44D U+1F3FC'' \<and>
   renderVariantPopup thumbs ! 2 = ''U+1F44D U+1F3FF''"
proof -
  note inst = variant_popup_buttons [of thumbs]
  have k: "length (skins thumbs) = 2"
    by (simp add: thumbs_def)
  have 0: "length (renderVariantPopup thumbs) = 3"
    using inst k by simp
  have "renderVariantPopup thumbs \<noteq> []"
    using 0 by auto
  then have "renderVariantPopup thumbs ! 0 = hd (renderVariantPopup thumbs)"
    by (simp add: hd_conv_nth)
  also have "\<dots> = emoji thumbs"
    using inst by simp
  finally have 1: "renderVariantPopup thumbs ! 0 = ''U+1F44D''"
    by (simp add: thumbs_def)
  have 2: "renderVariantPopup thumbs ! (0 + 1) = skin_emoji (skins thumbs ! 0)"
    "renderVariantPopup thumbs ! (1 + 1) = skin_emoji (skins thumbs ! 1)"
    using inst k by simp_all
  from 0 1 2 show ?thesis
    by (simp add: thumbs_def eval_nat_numeral)
qed

end
